theory Spec2Isabelle
  imports Complex_Main "HOL-Library.Word" "HOL-Library.List_Lexorder" "HOL-Library.Char_ord"
begin

section \<open>WbcVelocity: configuration and equation assembly\<close>

text \<open>
  A shallow embedding of \<^verbatim>\<open>src/WbcVelocity.cpp\<close>. The solver object is a record that is
  passed in and returned; a C++ exception is an \<open>error\<close> value returned together with the
  state as the throw leaves it. \<^verbatim>\<open>double\<close> is idealised as \<open>real\<close>, \<^verbatim>\<open>uint\<close> indices are
  \<open>nat\<close> (a \<open>32 word\<close> where the source relies on wrap-around), an \<^verbatim>\<open>int\<close> priority is a
  \<open>32 word\<close> read as a signed number. A \<^verbatim>\<open>std::map\<close> keyed by strings is an association
  list kept in ascending key order, which is the order its iterators visit. The constraint
  objects live on a heap (a list indexed by address), since the priority vector and the
  name map point to the same objects. The members of the solver keep their names without
  the trailing underscore.
\<close>

subsection \<open>Errors\<close>

datatype error =
    NotConfigured            \<comment> \<open>\<^verbatim>\<open>std::runtime_error("... Configure has not been called yet")\<close>\<close>
  | InvalidConstraintName    \<comment> \<open>\<^verbatim>\<open>std::invalid_argument("Invalid constraint name")\<close>\<close>
  | IncompleteTaskFrameInput \<comment> \<open>\<^verbatim>\<open>std::invalid_argument("Incomplete task frame input")\<close>\<close>
  | InvalidJointName         \<comment> \<open>\<^verbatim>\<open>std::invalid_argument("Invalid joint name")\<close>\<close>
  | InvalidConstraintConfig  \<comment> \<open>\<^verbatim>\<open>std::invalid_argument("Invalid Constraint config")\<close>\<close>
  | OutOfRange               \<comment> \<open>an index or a size outside the container: undefined behaviour in C++\<close>
  | DivisionByZero           \<comment> \<open>a quotient whose divisor is zero\<close>

subsection \<open>Vectors, matrices and the KDL geometry types\<close>

type_synonym vec = "real list"
type_synonym mat = "real list list"  \<comment> \<open>the list of the rows\<close>

definition zero_vec :: "nat \<Rightarrow> vec" where
  "zero_vec n = replicate n 0"

definition zero_mat :: "nat \<Rightarrow> nat \<Rightarrow> mat" where
  "zero_mat r c = replicate r (zero_vec c)"

definition identity_mat :: "nat \<Rightarrow> mat" where
  "identity_mat n = map (\<lambda>i. map (\<lambda>j. if i = j then 1 else 0) [0..<n]) [0..<n]"

definition is_mat :: "nat \<Rightarrow> nat \<Rightarrow> mat \<Rightarrow> bool" where
  "is_mat r c m \<longleftrightarrow> length m = r \<and> list_all (\<lambda>row. length row = c) m"

definition col :: "mat \<Rightarrow> nat \<Rightarrow> vec" where
  "col m j = map (\<lambda>row. row ! j) m"

definition transpose_mat :: "nat \<Rightarrow> mat \<Rightarrow> mat" where
  "transpose_mat c m = map (col m) [0..<c]"

definition dot :: "vec \<Rightarrow> vec \<Rightarrow> real" where
  "dot u v = sum_list (map2 (*) u v)"

definition mat_mul :: "nat \<Rightarrow> mat \<Rightarrow> mat \<Rightarrow> mat" where
  \<comment> \<open>the product of \<open>a\<close> with a matrix \<open>b\<close> of \<open>c\<close> columns\<close>
  "mat_mul c a b = map (\<lambda>row. map (\<lambda>j. dot row (col b j)) [0..<c]) a"

definition mat_sub :: "mat \<Rightarrow> mat \<Rightarrow> mat" where
  "mat_sub a b = map2 (map2 (-)) a b"

datatype Vector = Vector (vx: real) (vy: real) (vz: real)

datatype Rotation = Rotation Vector Vector Vector  \<comment> \<open>the three rows\<close>

datatype Frame = Frame (frame_M: Rotation) (frame_p: Vector)

datatype Twist = Twist (vel: Vector) (rot: Vector)

definition vadd :: "Vector \<Rightarrow> Vector \<Rightarrow> Vector" where
  "vadd a b = Vector (vx a + vx b) (vy a + vy b) (vz a + vz b)"

definition vneg :: "Vector \<Rightarrow> Vector" where
  "vneg a = Vector (- vx a) (- vy a) (- vz a)"

definition vdot :: "Vector \<Rightarrow> Vector \<Rightarrow> real" where
  "vdot a b = vx a * vx b + vy a * vy b + vz a * vz b"

definition cross :: "Vector \<Rightarrow> Vector \<Rightarrow> Vector" where
  \<comment> \<open>KDL: \<^verbatim>\<open>Vector operator*(const Vector&, const Vector&)\<close> is the cross product\<close>
  "cross a b = Vector (vy a * vz b - vz a * vy b)
                      (vz a * vx b - vx a * vz b)
                      (vx a * vy b - vy a * vx b)"

fun rot_vec :: "Rotation \<Rightarrow> Vector \<Rightarrow> Vector" where
  "rot_vec (Rotation r0 r1 r2) v = Vector (vdot r0 v) (vdot r1 v) (vdot r2 v)"

fun rot_inverse :: "Rotation \<Rightarrow> Rotation" where
  \<comment> \<open>KDL: \<^verbatim>\<open>Rotation::Inverse()\<close> is the transpose\<close>
  "rot_inverse (Rotation r0 r1 r2) =
     Rotation (Vector (vx r0) (vx r1) (vx r2))
              (Vector (vy r0) (vy r1) (vy r2))
              (Vector (vz r0) (vz r1) (vz r2))"

fun rot_mul :: "Rotation \<Rightarrow> Rotation \<Rightarrow> Rotation" where
  "rot_mul (Rotation r0 r1 r2) b =
     (case rot_inverse b of Rotation c0 c1 c2 \<Rightarrow>
        Rotation (Vector (vdot r0 c0) (vdot r0 c1) (vdot r0 c2))
                 (Vector (vdot r1 c0) (vdot r1 c1) (vdot r1 c2))
                 (Vector (vdot r2 c0) (vdot r2 c1) (vdot r2 c2)))"

definition rot_identity :: Rotation where
  "rot_identity = Rotation (Vector 1 0 0) (Vector 0 1 0) (Vector 0 0 1)"

definition frame_inverse :: "Frame \<Rightarrow> Frame" where
  \<comment> \<open>KDL: \<^verbatim>\<open>Frame::Inverse() = Frame(M.Inverse(), -M.Inverse(p))\<close>\<close>
  "frame_inverse f =
     Frame (rot_inverse (frame_M f)) (vneg (rot_vec (rot_inverse (frame_M f)) (frame_p f)))"

definition frame_mul :: "Frame \<Rightarrow> Frame \<Rightarrow> Frame" where
  \<comment> \<open>KDL: \<^verbatim>\<open>Frame(lhs.M * rhs.M, lhs.M * rhs.p + lhs.p)\<close>\<close>
  "frame_mul l r =
     Frame (rot_mul (frame_M l) (frame_M r)) (vadd (rot_vec (frame_M l) (frame_p r)) (frame_p l))"

definition rot_twist :: "Rotation \<Rightarrow> Twist \<Rightarrow> Twist" where
  \<comment> \<open>KDL: \<^verbatim>\<open>Rotation * Twist\<close> changes the frame the twist is expressed in\<close>
  "rot_twist m t = Twist (rot_vec m (vel t)) (rot_vec m (rot t))"

definition frame_twist :: "Frame \<Rightarrow> Twist \<Rightarrow> Twist" where
  \<comment> \<open>KDL: \<^verbatim>\<open>Frame * Twist\<close>: \<^verbatim>\<open>tmp.rot = M*arg.rot; tmp.vel = M*arg.vel + p*tmp.rot\<close>\<close>
  "frame_twist f t =
     (let r = rot_vec (frame_M f) (rot t)
      in Twist (vadd (rot_vec (frame_M f) (vel t)) (cross (frame_p f) r)) r)"

definition ref_point :: "Twist \<Rightarrow> Vector \<Rightarrow> Twist" where
  \<comment> \<open>KDL: \<^verbatim>\<open>Twist::RefPoint(v) = Twist(vel + rot * v, rot)\<close>\<close>
  "ref_point t v = Twist (vadd (vel t) (cross (rot t) v)) (rot t)"

definition twist_of_vec :: "vec \<Rightarrow> Twist" where
  \<comment> \<open>\<^verbatim>\<open>tmp_twist(i) = v(i)\<close> for \<open>i < 6\<close>: entries 0..2 are \<open>vel\<close>, 3..5 are \<open>rot\<close>\<close>
  "twist_of_vec v = Twist (Vector (v ! 0) (v ! 1) (v ! 2)) (Vector (v ! 3) (v ! 4) (v ! 5))"

definition vec_of_twist :: "Twist \<Rightarrow> vec" where
  "vec_of_twist t = [vx (vel t), vy (vel t), vz (vel t), vx (rot t), vy (rot t), vz (rot t)]"

subsection \<open>A \<^verbatim>\<open>std::map\<close> with string keys\<close>

type_synonym 'v smap = "(string \<times> 'v) list"

definition map_count :: "'v smap \<Rightarrow> string \<Rightarrow> nat" where
  "map_count m k = (case map_of m k of None \<Rightarrow> 0 | Some _ \<Rightarrow> 1)"

fun map_set :: "string \<Rightarrow> 'v \<Rightarrow> 'v smap \<Rightarrow> 'v smap" where
  \<comment> \<open>\<^verbatim>\<open>m[k] = v\<close>\<close>
  "map_set k v [] = [(k, v)]"
| "map_set k v ((k', v') # m) =
     (if k = k' then (k, v) # m
      else if k < k' then (k, v) # (k', v') # m
      else (k', v') # map_set k v m)"

subsection \<open>The data model\<close>

text \<open>
  The headers that declare the structures are not among the sources. The records below
  have the members that \<^verbatim>\<open>WbcVelocity.cpp\<close> reads and writes, under the names it uses
  (the members of a task frame and of an equation system carry a prefix), with the types
  that their uses there require. \<open>cfg_weights\<close>, which that file never reads, is the weight
  vector that the specification's data model lists for the specification of a constraint.
\<close>

datatype constraint_type = cart | jnt

record ConstraintConfig =
  name :: string
  ctype :: constraint_type
  priority :: "32 word"
  root_frame :: string
  tip :: string
  ref_frame :: string
  joint_names :: "string list"
  cfg_weights :: vec
  timeout :: real

record ExtendedConstraint =
  config :: ConstraintConfig
  no_variables :: nat
  y_ref :: vec
  y_ref_root :: vec
  weights :: vec
  activation :: real
  constraint_timed_out :: int
  last_ref_input :: int  \<comment> \<open>\<^verbatim>\<open>base::Time\<close>, in microseconds\<close>
  time :: int
  A_mat :: mat
  H_mat :: mat
  Uf :: mat
  Vf :: mat
  Sf :: vec
  jac_helper :: mat
  pose_tip_in_root :: Frame
  pose_ref_frame_in_root :: Frame

record TaskFrame =
  tf_joint_names :: "string list"
  tf_jacobian :: mat
  tf_pose :: Frame

record LinearEquationSystem =
  eq_A :: mat
  eq_y_ref :: vec
  eq_W_row :: vec

record WbcVelocity =
  configured :: bool
  constraint_vector :: "nat list list"
  constraint_map :: "nat smap"
  joint_index_map :: "nat smap"
  jac_map :: "mat smap"
  no_robot_joints :: nat
  n_constraints_per_prio :: "nat list"
  n_prios :: nat
  task_frame_ids :: "string list"
  heap :: "ExtendedConstraint list"

text \<open>
  Modelled from the spec: the constructor of \<^verbatim>\<open>ExtendedConstraint\<close> (its header is not among
  the sources). The spec's data model gives the shapes: the reference value has 6 entries
  for a Cartesian constraint and one per listed joint for a joint constraint, the task
  matrix has that many rows and one column per robot joint, and the specification carries
  the weight vector. The task matrix starts as the zero matrix.
\<close>

definition ExtendedConstraint_new :: "ConstraintConfig \<Rightarrow> string list \<Rightarrow> ExtendedConstraint" where
  "ExtendedConstraint_new cfg robot_joint_names =
     (let n = (if ctype cfg = jnt then length (joint_names cfg) else 6)
      in \<lparr> config = cfg, no_variables = n,
           y_ref = zero_vec n, y_ref_root = zero_vec n,
           weights = cfg_weights cfg, activation = 0,
           constraint_timed_out = 0, last_ref_input = 0, time = 0,
           A_mat = zero_mat n (length robot_joint_names),
           H_mat = zero_mat 6 6, Uf = zero_mat 6 6, Vf = zero_mat 6 6, Sf = zero_vec 6,
           jac_helper = zero_mat 6 6,
           pose_tip_in_root = Frame rot_identity (Vector 0 0 0),
           pose_ref_frame_in_root = Frame rot_identity (Vector 0 0 0) \<rparr>)"

subsection \<open>Construction, \<^verbatim>\<open>clear\<close> and \<^verbatim>\<open>configure\<close>\<close>

text \<open>
  The constructor initialises \<^verbatim>\<open>configured_\<close> and \<^verbatim>\<open>no_robot_joints_\<close> only; the containers
  start empty. \<^verbatim>\<open>n_prios_\<close> is not in the initialiser list, so it holds whatever the memory
  held: that value is the parameter \<open>n0\<close>.
\<close>

definition WbcVelocity_new :: "nat \<Rightarrow> WbcVelocity" where
  "WbcVelocity_new n0 =
     \<lparr> configured = False, constraint_vector = [], constraint_map = [],
       joint_index_map = [], jac_map = [], no_robot_joints = 0,
       n_constraints_per_prio = [], n_prios = n0, task_frame_ids = [], heap = [] \<rparr>"

definition clear :: "WbcVelocity \<Rightarrow> WbcVelocity" where
  \<comment> \<open>every constraint object is owned by \<^verbatim>\<open>constraint_vector_\<close>, so the loop deletes them all\<close>
  "clear s = s\<lparr> heap := [], jac_map := [], constraint_map := [], constraint_vector := [],
                joint_index_map := [], no_robot_joints := 0, task_frame_ids := [] \<rparr>"

fun fill_joint_index_map :: "string list \<Rightarrow> nat \<Rightarrow> nat smap \<Rightarrow> nat smap" where
  "fill_joint_index_map [] i m = m"
| "fill_joint_index_map (n # ns) i m = fill_joint_index_map ns (Suc i) (map_set n i m)"

fun check_priorities :: "ConstraintConfig list \<Rightarrow> int \<Rightarrow> int option" where
  \<comment> \<open>\<open>None\<close>: a priority is negative; otherwise the largest priority\<close>
  "check_priorities [] max_prio = Some max_prio"
| "check_priorities (c # cs) max_prio =
     (if sint (priority c) < 0 then None
      else check_priorities cs (if sint (priority c) > max_prio then sint (priority c) else max_prio))"

definition vector_resize :: "nat \<Rightarrow> 'a \<Rightarrow> 'a list \<Rightarrow> 'a list" where
  \<comment> \<open>\<^verbatim>\<open>std::vector::resize\<close>: keeps the front, appends default elements\<close>
  "vector_resize n d v = take n v @ replicate (n - length v) d"

fun create_constraints :: "ConstraintConfig list \<Rightarrow> string list \<Rightarrow> WbcVelocity \<Rightarrow> bool \<times> WbcVelocity" where
  "create_constraints [] jns s = (True, s)"
| "create_constraints (c # cs) jns s =
     (let ptr = length (heap s);
          prio = nat (sint (priority c));
          s1 = s\<lparr> heap := heap s @ [ExtendedConstraint_new c jns],
                  constraint_vector :=
                    (constraint_vector s)[prio := constraint_vector s ! prio @ [ptr]] \<rparr>
      in if map_count (constraint_map s1) (name c) \<noteq> 0 then (False, s1)
         else create_constraints cs jns
                (s1\<lparr> constraint_map := map_set (name c) ptr (constraint_map s1) \<rparr>))"

text \<open>
  The loop that erases the empty priorities counts with a \<^verbatim>\<open>uint\<close> that it decrements after
  an erasure, also at 0, where it wraps; the increment of the loop header wraps it back.
  The vector has at most \<open>2^31\<close> entries (the largest priority is an \<^verbatim>\<open>int\<close>), so the
  counter can index all of it.
\<close>

function erase_empty_prios :: "32 word \<Rightarrow> nat list list \<Rightarrow> nat list list" where
  "erase_empty_prios prio cv =
     (if unat prio < length cv \<and> length cv < 2 ^ 32 then
        (if cv ! unat prio = []
         then erase_empty_prios (prio - 1 + 1) (take (unat prio) cv @ drop (unat prio + 1) cv)
         else erase_empty_prios (prio + 1) cv)
      else cv)"
  by pat_completeness auto
termination
proof (relation "measure (\<lambda>(prio, cv). 2 * length cv - unat prio)", goal_cases)
  case 1
  show ?case by simp
next
  case (2 prio cv)
  then show ?case by (cases cv) auto
next
  case (3 prio cv)
  then have "unat prio + 1 < 2 ^ 32" by simp
  then have "unat (prio + 1) = unat prio + 1"
    by (simp add: unat_add_lem [THEN iffD1])
  with 3 show ?case by auto
qed

declare erase_empty_prios.simps [simp del]

definition count_constraints :: "ExtendedConstraint list \<Rightarrow> nat list list \<Rightarrow> nat list" where
  \<comment> \<open>\<^verbatim>\<open>n_constraints_per_prio_[prio] += constraint_vector_[prio][j]->y_ref.size()\<close>\<close>
  "count_constraints h cv = map (\<lambda>level. sum_list (map (\<lambda>ptr. length (y_ref (h ! ptr))) level)) cv"

definition zero_jacobian :: "nat \<Rightarrow> mat" where
  \<comment> \<open>\<^verbatim>\<open>KDL::Jacobian jac(n); jac.data.setZero()\<close>: 6 rows, \<open>n\<close> columns\<close>
  "zero_jacobian n = zero_mat 6 n"

definition add_task_frame :: "string \<Rightarrow> WbcVelocity \<Rightarrow> WbcVelocity" where
  "add_task_frame tf_name s =
     (if map_count (jac_map s) tf_name = 0
      then s\<lparr> jac_map := map_set tf_name (zero_jacobian (length (joint_index_map s))) (jac_map s),
              task_frame_ids := task_frame_ids s @ [tf_name] \<rparr>
      else s)"

fun create_tf_map :: "nat smap \<Rightarrow> WbcVelocity \<Rightarrow> WbcVelocity" where
  "create_tf_map [] s = s"
| "create_tf_map ((nm, ptr) # it) s =
     (let cfg = config (heap s ! ptr)
      in if ctype cfg = cart
         then create_tf_map it
                (add_task_frame (ref_frame cfg) (add_task_frame (tip cfg) (add_task_frame (root_frame cfg) s)))
         else create_tf_map it s)"

definition configure :: "ConstraintConfig list \<Rightarrow> string list \<Rightarrow> WbcVelocity \<Rightarrow> bool \<times> WbcVelocity" where
  "configure cfgs jns s =
     (let s1 = clear s;
          s2 = s1\<lparr> no_robot_joints := length jns \<rparr>;
          s3 = s2\<lparr> joint_index_map := fill_joint_index_map jns 0 (joint_index_map s2) \<rparr>
      in case check_priorities cfgs 0 of
           None \<Rightarrow> (False, s3)
         | Some max_prio \<Rightarrow>
             (let s4 = s3\<lparr> constraint_vector :=
                            vector_resize (nat (max_prio + 1)) [] (constraint_vector s3) \<rparr>;
                  r = create_constraints cfgs jns s4;
                  s5 = snd r
              in if \<not> fst r then (False, s5)
                 else
                   (let s6 = s5\<lparr> constraint_vector := erase_empty_prios 0 (constraint_vector s5) \<rparr>;
                        s7 = s6\<lparr> n_constraints_per_prio :=
                                  count_constraints (heap s6) (constraint_vector s6) \<rparr>;
                        s8 = s7\<lparr> n_prios := length (n_constraints_per_prio s7) \<rparr>;
                        s9 = create_tf_map (constraint_map s8) s8
                    in (True, s9\<lparr> configured := True \<rparr>))))"

subsection \<open>Constraint lookup and introspection\<close>

definition constraint :: "string \<Rightarrow> WbcVelocity \<Rightarrow> error + nat" where
  \<comment> \<open>the handle returned is the address of the constraint object\<close>
  "constraint nm s =
     (if \<not> configured s then Inl NotConfigured
      else case map_of (constraint_map s) nm of
             None \<Rightarrow> Inl InvalidConstraintName
           | Some ptr \<Rightarrow> Inr ptr)"

fun fill_joint_names :: "nat smap \<Rightarrow> string list \<Rightarrow> error + string list" where
  \<comment> \<open>\<^verbatim>\<open>joint_names[it->second] = it->first\<close> for every entry of the map\<close>
  "fill_joint_names [] res = Inr res"
| "fill_joint_names ((nm, idx) # it) res =
     (if idx < length res then fill_joint_names it (res[idx := nm]) else Inl OutOfRange)"

definition jointNames :: "WbcVelocity \<Rightarrow> (error + string list) \<times> WbcVelocity" where
  \<comment> \<open>the result and the solver as the call leaves it: no member is assigned\<close>
  "jointNames s =
     (fill_joint_names (joint_index_map s) (replicate (length (joint_index_map s)) []), s)"

fun copy_level :: "ExtendedConstraint list \<Rightarrow> nat list \<Rightarrow> error + ExtendedConstraint list" where
  \<comment> \<open>\<^verbatim>\<open>constraints[prio][i] = *constraint_vector_[prio][i]\<close>, the level resized to fit\<close>
  "copy_level h [] = Inr []"
| "copy_level h (ptr # ptrs) =
     (if ptr < length h
      then (case copy_level h ptrs of Inl e \<Rightarrow> Inl e | Inr cs \<Rightarrow> Inr (h ! ptr # cs))
      else Inl OutOfRange)"

fun copy_levels :: "WbcVelocity \<Rightarrow> nat list \<Rightarrow> ExtendedConstraint list list \<Rightarrow> error + ExtendedConstraint list list" where
  "copy_levels s [] constraints = Inr constraints"
| "copy_levels s (prio # prios) constraints =
     (if prio < length (constraint_vector s)
      then (case copy_level (heap s) (constraint_vector s ! prio) of
              Inl e \<Rightarrow> Inl e
            | Inr cs \<Rightarrow> copy_levels s prios (constraints[prio := cs]))
      else Inl OutOfRange)"

definition getConstraintVector :: "WbcVelocity \<Rightarrow> ExtendedConstraint list list \<Rightarrow> error + ExtendedConstraint list list" where
  "getConstraintVector s constraints =
     copy_levels s [0..<n_prios s]
       (if length constraints \<noteq> n_prios s then vector_resize (n_prios s) [] constraints
        else constraints)"

subsection \<open>Equation assembly: \<^verbatim>\<open>prepareEqSystem\<close>\<close>

text \<open>
  A KDL Jacobian has 6 rows; its columns are twists. An Eigen access outside the object
  (an assertion of a debug build, undefined behaviour otherwise) is \<open>OutOfRange\<close>, returned
  with the state as it was before that statement.
\<close>

definition jac_columns :: "mat \<Rightarrow> nat" where
  "jac_columns j = (case j of [] \<Rightarrow> 0 | row # _ \<Rightarrow> length row)"

definition setColumn :: "nat \<Rightarrow> vec \<Rightarrow> mat \<Rightarrow> mat" where
  "setColumn i t j = map2 (\<lambda>row x. row[i := x]) j t"

definition of_columns :: "vec list \<Rightarrow> mat" where
  "of_columns cs = map (\<lambda>r. map (\<lambda>c. c ! r) cs) [0..<6]"

definition map_columns :: "(Twist \<Rightarrow> Twist) \<Rightarrow> mat \<Rightarrow> mat" where
  \<comment> \<open>\<^verbatim>\<open>for i < columns: setColumn(i, f(getColumn(i)))\<close>\<close>
  "map_columns f j =
     of_columns (map (\<lambda>i. vec_of_twist (f (twist_of_vec (col j i)))) [0..<jac_columns j])"

definition changeRefPoint :: "Vector \<Rightarrow> mat \<Rightarrow> mat" where
  "changeRefPoint base_AB j = map_columns (\<lambda>t. ref_point t base_AB) j"

definition changeRefFrame :: "Frame \<Rightarrow> mat \<Rightarrow> mat" where
  "changeRefFrame f j = map_columns (frame_twist f) j"

definition map_index :: "'v \<Rightarrow> 'v smap \<Rightarrow> string \<Rightarrow> 'v smap \<times> 'v" where
  \<comment> \<open>\<^verbatim>\<open>m[k]\<close> read: a missing key is inserted with the default value\<close>
  "map_index d m k = (case map_of m k of Some v \<Rightarrow> (m, v) | None \<Rightarrow> (map_set k d m, d))"

fun check_task_frames :: "string list \<Rightarrow> TaskFrame smap \<Rightarrow> bool" where
  "check_task_frames [] tfs = True"
| "check_task_frames (i # ids) tfs =
     (if map_count tfs i = 0 then False else check_task_frames ids tfs)"

fun splice_columns :: "string \<Rightarrow> TaskFrame \<Rightarrow> nat \<Rightarrow> string list \<Rightarrow> WbcVelocity \<Rightarrow> error option \<times> WbcVelocity" where
  "splice_columns tf_name tf j [] s = (None, s)"
| "splice_columns tf_name tf j (jt_name # jts) s =
     (case map_of (joint_index_map s) jt_name of
        None \<Rightarrow> (Some InvalidJointName, s)
      | Some idx \<Rightarrow>
          (let (jm, jac) = map_index (zero_jacobian 0) (jac_map s) tf_name
           in if j < jac_columns (tf_jacobian tf) \<and> idx < jac_columns jac
              then splice_columns tf_name tf (Suc j) jts
                     (s\<lparr> jac_map := map_set tf_name (setColumn idx (col (tf_jacobian tf) j) jac) jm \<rparr>)
              else (Some OutOfRange, s)))"

fun update_jacobians :: "TaskFrame smap \<Rightarrow> WbcVelocity \<Rightarrow> error option \<times> WbcVelocity" where
  "update_jacobians [] s = (None, s)"
| "update_jacobians ((tf_name, tf) # it) s =
     (case splice_columns tf_name tf 0 (tf_joint_names tf) s of
        (None, s1) \<Rightarrow> update_jacobians it s1
      | (Some e, s1) \<Rightarrow> (Some e, s1))"

definition les_empty :: LinearEquationSystem where
  "les_empty = \<lparr> eq_A = [], eq_y_ref = [], eq_W_row = [] \<rparr>"

text \<open>
  Modelled from the spec: \<^verbatim>\<open>LinearEquationSystem::resize\<close> (its header is not among the
  sources). It sizes the weight vector, the task matrix and the reference vector of a level
  to the row count and the joint-column count. Eigen leaves the entries of a resized object
  unspecified; here the old entries stay and new ones are 0.
\<close>

definition les_resize :: "nat \<Rightarrow> nat \<Rightarrow> LinearEquationSystem \<Rightarrow> LinearEquationSystem" where
  "les_resize n_constraints n_joints e =
     \<lparr> eq_A = vector_resize n_constraints (zero_vec n_joints) (map (vector_resize n_joints 0) (eq_A e)),
       eq_y_ref = vector_resize n_constraints 0 (eq_y_ref e),
       eq_W_row = vector_resize n_constraints 0 (eq_W_row e) \<rparr>"

definition toSeconds :: "int \<Rightarrow> real" where
  \<comment> \<open>\<^verbatim>\<open>base::Time::toSeconds\<close>: the microseconds divided by \<open>10^6\<close>\<close>
  "toSeconds us = real_of_int us / 1000000"

definition check_timeout :: "int \<Rightarrow> ExtendedConstraint \<Rightarrow> ExtendedConstraint" where
  "check_timeout now c =
     (if timeout (config c) > 0 then
        (let diff = toSeconds (now - last_ref_input c)
         in if diff > timeout (config c) then c\<lparr> constraint_timed_out := 1 \<rparr>
            else c\<lparr> constraint_timed_out := 0 \<rparr>)
      else c\<lparr> constraint_timed_out := 0 \<rparr>)"

definition reciprocal :: "real \<Rightarrow> error + real" where
  \<comment> \<open>\<^verbatim>\<open>1 / x\<close>\<close>
  "reciprocal x = (if x = 0 then Inl DivisionByZero else Inr (1 / x))"

fun invert_singular_values :: "nat \<Rightarrow> vec \<Rightarrow> mat \<Rightarrow> error + mat" where
  \<comment> \<open>\<^verbatim>\<open>if (Sf(j) > 0) Uf.col(j) *= 1 / Sf(j); else Uf.col(j).setZero();\<close>\<close>
  "invert_singular_values j [] U = Inr U"
| "invert_singular_values j (sv # svs) U =
     (if sv > 0 then
        (case reciprocal sv of
           Inl e \<Rightarrow> Inl e
         | Inr f \<Rightarrow> invert_singular_values (Suc j) svs (map (\<lambda>row. row[j := row ! j * f]) U))
      else invert_singular_values (Suc j) svs (map (\<lambda>row. row[j := 0]) U))"

definition block_rows :: "nat \<Rightarrow> nat \<Rightarrow> mat \<Rightarrow> mat" where
  \<comment> \<open>\<^verbatim>\<open>m.block(0, 0, r, c)\<close>\<close>
  "block_rows r c m = map (take c) (take r m)"

definition twist_to_root :: "Frame \<Rightarrow> vec \<Rightarrow> vec" where
  \<comment> \<open>lines 274 to 279: \<^verbatim>\<open>tmp_twist = constraint->pose_ref_frame_in_root * tmp_twist\<close>,
      the product of a \<^verbatim>\<open>KDL::Frame\<close> with a \<^verbatim>\<open>KDL::Twist\<close>\<close>
  "twist_to_root pose y = vec_of_twist (frame_twist pose (twist_of_vec y))"

definition local_jacobian :: "Frame \<Rightarrow> Frame \<Rightarrow> mat" where
  \<comment> \<open>lines 240 to 242: \<^verbatim>\<open>setIdentity()\<close>, \<^verbatim>\<open>changeRefPoint(-pose_tip_in_root.p)\<close>,
      \<^verbatim>\<open>changeRefFrame(tf_root.pose)\<close>\<close>
  "local_jacobian root_pose tip_in_root =
     changeRefFrame root_pose (changeRefPoint (vneg (frame_p tip_in_root)) (identity_mat 6))"

definition cart_constraint ::
  "(mat \<Rightarrow> mat \<times> vec \<times> mat) \<Rightarrow> TaskFrame smap \<Rightarrow> mat smap \<Rightarrow> ExtendedConstraint
     \<Rightarrow> error + (mat smap \<times> ExtendedConstraint)" where
  "cart_constraint svd task_frames jm c =
     (case (map_of task_frames (root_frame (config c)),
            map_of task_frames (tip (config c)),
            map_of task_frames (ref_frame (config c))) of
        (Some tf_root, Some tf_tip, Some tf_ref_frame) \<Rightarrow>
          (let n_vars = no_variables c;
               c1 = c\<lparr> pose_tip_in_root := frame_mul (frame_inverse (tf_pose tf_root)) (tf_pose tf_tip) \<rparr>;
               c2 = c1\<lparr> jac_helper := local_jacobian (tf_pose tf_root) (pose_tip_in_root c1) \<rparr>;
               (U, S, V) = svd (jac_helper c2);
               c3 = c2\<lparr> Uf := U, Sf := S, Vf := V \<rparr>
           in case invert_singular_values 0 (Sf c3) (Uf c3) of
                Inl e \<Rightarrow> Inl e
              | Inr U' \<Rightarrow>
                  (let c4 = c3\<lparr> Uf := U' \<rparr>;
                       c5 = c4\<lparr> H_mat := mat_mul (length (Uf c4)) (Vf c4)
                                            (transpose_mat (jac_columns (Uf c4)) (Uf c4)) \<rparr>;
                       (jm1, jac_root) = map_index (zero_jacobian 0) jm (root_frame (config c));
                       (jm2, jac_tip) = map_index (zero_jacobian 0) jm1 (tip (config c))
                   in if n_vars \<le> length (H_mat c5) \<and> 6 \<le> length (y_ref c5) \<and> 6 \<le> length (y_ref_root c5)
                      then
                        (let c6 = c5\<lparr> A_mat :=
                                        mat_sub (mat_mul (jac_columns jac_tip) (block_rows n_vars 6 (H_mat c5)) jac_tip)
                                                (mat_mul (jac_columns jac_root) (block_rows n_vars 6 (H_mat c5)) jac_root) \<rparr>;
                             c7 = c6\<lparr> pose_ref_frame_in_root :=
                                        frame_mul (frame_inverse (tf_pose tf_root)) (tf_pose tf_ref_frame) \<rparr>;
                             c8 = c7\<lparr> y_ref_root :=
                                        twist_to_root (pose_ref_frame_in_root c7) (y_ref c7) @ drop 6 (y_ref_root c7) \<rparr>
                         in Inr (jm2, c8))
                      else Inl OutOfRange))
      | _ \<Rightarrow> Inl OutOfRange)"

fun jnt_constraint :: "nat \<Rightarrow> string list \<Rightarrow> nat smap \<Rightarrow> ExtendedConstraint \<Rightarrow> error option \<times> ExtendedConstraint" where
  "jnt_constraint i [] jim c = (None, c)"
| "jnt_constraint i (joint_name # jns) jim c =
     (case map_of jim joint_name of
        None \<Rightarrow> (Some InvalidConstraintConfig, c)
      | Some idx \<Rightarrow>
          if i < length (A_mat c) \<and> idx < length (A_mat c ! i)
          then jnt_constraint (Suc i) jns jim
                 (c\<lparr> A_mat := (A_mat c)[i := (A_mat c ! i)[idx := 1]], y_ref_root := y_ref c \<rparr>)
          else (Some OutOfRange, c))"

definition zero_reference :: "ExtendedConstraint \<Rightarrow> ExtendedConstraint" where
  \<comment> \<open>\<^verbatim>\<open>if (!constraint->activation) { y_ref.setZero(); y_ref_root.setZero(); }\<close>\<close>
  "zero_reference c =
     (if activation c = 0
      then c\<lparr> y_ref := zero_vec (length (y_ref c)), y_ref_root := zero_vec (length (y_ref_root c)) \<rparr>
      else c)"

definition effective_weights :: "ExtendedConstraint \<Rightarrow> vec" where
  \<comment> \<open>\<^verbatim>\<open>constraint->weights * constraint->activation * (!constraint->constraint_timed_out)\<close>\<close>
  "effective_weights c =
     map (\<lambda>w. w * activation c * (if constraint_timed_out c = 0 then 1 else 0)) (weights c)"

definition set_segment :: "nat \<Rightarrow> nat \<Rightarrow> 'a list \<Rightarrow> 'a list \<Rightarrow> 'a list option" where
  \<comment> \<open>\<^verbatim>\<open>old.segment(start, n) = new\<close>\<close>
  "set_segment start n new old =
     (if start + n \<le> length old \<and> length new = n
      then Some (take start old @ new @ drop (start + n) old)
      else None)"

definition set_block :: "nat \<Rightarrow> nat \<Rightarrow> nat \<Rightarrow> mat \<Rightarrow> mat \<Rightarrow> mat option" where
  \<comment> \<open>\<^verbatim>\<open>old.block(start, 0, n, ncols) = new\<close>\<close>
  "set_block start n ncols new old =
     (if start + n \<le> length old \<and> is_mat n ncols new
         \<and> list_all (\<lambda>row. ncols \<le> length row) (take n (drop start old))
      then Some (take start old
                 @ map2 (\<lambda>nw od. nw @ drop ncols od) new (take n (drop start old))
                 @ drop (start + n) old)
      else None)"

definition insert_constraint :: "nat \<Rightarrow> nat \<Rightarrow> nat \<Rightarrow> ExtendedConstraint \<Rightarrow> LinearEquationSystem \<Rightarrow> LinearEquationSystem option" where
  \<comment> \<open>lines 308 to 310\<close>
  "insert_constraint row_index n_vars n_joints c e =
     (case set_segment row_index n_vars (effective_weights c) (eq_W_row e) of
        None \<Rightarrow> None
      | Some w \<Rightarrow>
          (case set_block row_index n_vars n_joints (A_mat c) (eq_A e) of
             None \<Rightarrow> None
           | Some a \<Rightarrow>
               (case set_segment row_index n_vars (y_ref_root c) (eq_y_ref e) of
                  None \<Rightarrow> None
                | Some y \<Rightarrow> Some \<lparr> eq_A = a, eq_y_ref = y, eq_W_row = w \<rparr>)))"

text \<open>
  The body of the loop over the constraints of a priority, in two parts: the evaluation of
  the constraint object (lines 216 to 306), which reads and writes that object and the
  Jacobian registry, and the insertion into the equation system of the priority (lines 308
  to 310). The two readings of \<^verbatim>\<open>base::Time::now()\<close> are inputs: \<open>now1\<close> for the timeout
  check, \<open>now2\<close> for the time stamp.
\<close>

definition evaluate_constraint ::
  "(mat \<Rightarrow> mat \<times> vec \<times> mat) \<Rightarrow> int \<Rightarrow> int \<Rightarrow> TaskFrame smap \<Rightarrow> nat smap \<Rightarrow> mat smap
     \<Rightarrow> ExtendedConstraint \<Rightarrow> error option \<times> mat smap \<times> ExtendedConstraint" where
  "evaluate_constraint svd now1 now2 task_frames jim jm c0 =
     (let c1 = check_timeout now1 c0
      in if ctype (config c1) = cart then
           (case cart_constraint svd task_frames jm c1 of
              Inl err \<Rightarrow> (Some err, jm, c1)
            | Inr (jm1, c2) \<Rightarrow> (None, jm1, zero_reference (c2\<lparr> time := now2 \<rparr>)))
         else
           (case jnt_constraint 0 (joint_names (config c1)) jim c1 of
              (Some err, c2) \<Rightarrow> (Some err, jm, c2)
            | (None, c2) \<Rightarrow> (None, jm, zero_reference (c2\<lparr> time := now2 \<rparr>))))"

definition update_constraint ::
  "(mat \<Rightarrow> mat \<times> vec \<times> mat) \<Rightarrow> int \<Rightarrow> int \<Rightarrow> TaskFrame smap \<Rightarrow> nat \<Rightarrow> nat
     \<Rightarrow> WbcVelocity \<Rightarrow> LinearEquationSystem
     \<Rightarrow> error option \<times> WbcVelocity \<times> LinearEquationSystem" where
  "update_constraint svd now1 now2 task_frames ptr row_index s e =
     (if \<not> ptr < length (heap s) then (Some OutOfRange, s, e)
      else
        (case evaluate_constraint svd now1 now2 task_frames (joint_index_map s) (jac_map s)
                (heap s ! ptr) of
           (Some err, jm, c) \<Rightarrow> (Some err, s\<lparr> jac_map := jm, heap := (heap s)[ptr := c] \<rparr>, e)
         | (None, jm, c) \<Rightarrow>
             (case insert_constraint row_index (no_variables (heap s ! ptr)) (no_robot_joints s) c e of
                None \<Rightarrow> (Some OutOfRange, s\<lparr> jac_map := jm, heap := (heap s)[ptr := c] \<rparr>, e)
              | Some e1 \<Rightarrow> (None, s\<lparr> jac_map := jm, heap := (heap s)[ptr := c] \<rparr>, e1))))"

fun update_constraints ::
  "(mat \<Rightarrow> mat \<times> vec \<times> mat) \<Rightarrow> (nat \<Rightarrow> nat \<Rightarrow> int) \<Rightarrow> TaskFrame smap \<Rightarrow> nat \<Rightarrow> nat list \<Rightarrow> nat
     \<Rightarrow> WbcVelocity \<Rightarrow> LinearEquationSystem
     \<Rightarrow> error option \<times> WbcVelocity \<times> LinearEquationSystem" where
  "update_constraints svd now task_frames i [] row_index s e = (None, s, e)"
| "update_constraints svd now task_frames i (ptr # ptrs) row_index s e =
     (case update_constraint svd (now i 0) (now i 1) task_frames ptr row_index s e of
        (Some err, s1, e1) \<Rightarrow> (Some err, s1, e1)
      | (None, s1, e1) \<Rightarrow>
          update_constraints svd now task_frames (Suc i) ptrs
            (row_index + no_variables (heap s ! ptr)) s1 e1)"

fun update_prios ::
  "(mat \<Rightarrow> mat \<times> vec \<times> mat) \<Rightarrow> (nat \<Rightarrow> nat \<Rightarrow> nat \<Rightarrow> int) \<Rightarrow> TaskFrame smap \<Rightarrow> nat list
     \<Rightarrow> WbcVelocity \<Rightarrow> LinearEquationSystem list
     \<Rightarrow> error option \<times> WbcVelocity \<times> LinearEquationSystem list" where
  "update_prios svd now task_frames [] s equations = (None, s, equations)"
| "update_prios svd now task_frames (prio # prios) s equations =
     (if prio < length (n_constraints_per_prio s) \<and> prio < length equations
         \<and> prio < length (constraint_vector s)
      then
        (let e0 = les_resize (n_constraints_per_prio s ! prio) (no_robot_joints s) (equations ! prio)
         in case update_constraints svd (now prio) task_frames 0 (constraint_vector s ! prio) 0 s e0 of
              (Some err, s1, e1) \<Rightarrow> (Some err, s1, equations[prio := e1])
            | (None, s1, e1) \<Rightarrow> update_prios svd now task_frames prios s1 (equations[prio := e1]))
      else (Some OutOfRange, s, equations))"

text \<open>
  \<open>svd\<close> stands for \<^verbatim>\<open>KDL::svd_eigen_HH\<close>, which is not part of the repository: from the
  local Jacobian it gives \<open>(U, S, V)\<close>. \<open>now prio i k\<close> is the reading of the clock at the
  \<open>k\<close>-th call of \<^verbatim>\<open>base::Time::now()\<close> for constraint \<open>i\<close> of priority \<open>prio\<close>.
\<close>

definition prepareEqSystem ::
  "(mat \<Rightarrow> mat \<times> vec \<times> mat) \<Rightarrow> (nat \<Rightarrow> nat \<Rightarrow> nat \<Rightarrow> int) \<Rightarrow> TaskFrame smap
     \<Rightarrow> WbcVelocity \<Rightarrow> LinearEquationSystem list
     \<Rightarrow> error option \<times> WbcVelocity \<times> LinearEquationSystem list" where
  "prepareEqSystem svd now task_frames s equations =
     (if \<not> configured s then (Some NotConfigured, s, equations)
      else if \<not> check_task_frames (task_frame_ids s) task_frames
      then (Some IncompleteTaskFrameInput, s, equations)
      else
        (case update_jacobians task_frames s of
           (Some err, s1) \<Rightarrow> (Some err, s1, equations)
         | (None, s1) \<Rightarrow>
             update_prios svd now task_frames [0..<n_prios s1] s1
               (if length equations \<noteq> n_prios s1
                then vector_resize (n_prios s1) les_empty equations
                else equations)))"

text \<open>
  The solvers in service for a configuration: the one that a successful \<^verbatim>\<open>configure\<close>
  returns, and from there every solver that the callers' writes to the constraint objects
  and the cycles of the assembly, successful or not, lead to.
\<close>

inductive configured_by :: "ConstraintConfig list \<Rightarrow> WbcVelocity \<Rightarrow> bool" for cfgs where
  after_configure: "configure cfgs jns s0 = (True, s) \<Longrightarrow> configured_by cfgs s"
| after_write: "configured_by cfgs s \<Longrightarrow> configured_by cfgs (s\<lparr> heap := h \<rparr>)"
| after_cycle: "configured_by cfgs s \<Longrightarrow> prepareEqSystem svd now tfs s eqs = (r, s', eqs')
     \<Longrightarrow> configured_by cfgs s'"

subsection \<open>Example configurations\<close>

definition joint_config :: "string \<Rightarrow> 32 word \<Rightarrow> string list \<Rightarrow> ConstraintConfig" where
  "joint_config nm prio jns =
     \<lparr> name = nm, ctype = jnt, priority = prio, root_frame = [], tip = [], ref_frame = [],
       joint_names = jns, cfg_weights = replicate (length jns) 1, timeout = 0 \<rparr>"

definition cart_config :: "string \<Rightarrow> 32 word \<Rightarrow> string \<Rightarrow> string \<Rightarrow> string \<Rightarrow> ConstraintConfig" where
  "cart_config nm prio rt tp rf =
     \<lparr> name = nm, ctype = cart, priority = prio, root_frame = rt, tip = tp, ref_frame = rf,
       joint_names = [], cfg_weights = replicate 6 1, timeout = 0 \<rparr>"

definition fixed_frame :: "Frame \<Rightarrow> TaskFrame" where
  \<comment> \<open>a task frame that no joint moves\<close>
  "fixed_frame pose = \<lparr> tf_joint_names = [], tf_jacobian = zero_jacobian 0, tf_pose = pose \<rparr>"

subsection \<open>Reading the assembled system\<close>

definition segment :: "nat \<Rightarrow> nat \<Rightarrow> 'a list \<Rightarrow> 'a list" where
  \<comment> \<open>the \<open>n\<close> entries from \<open>start\<close> on\<close>
  "segment start n xs = take n (drop start xs)"

definition row_offset :: "WbcVelocity \<Rightarrow> nat \<Rightarrow> nat \<Rightarrow> nat" where
  \<comment> \<open>the value of \<^verbatim>\<open>row_index\<close> when constraint \<open>i\<close> of priority \<open>prio\<close> is reached\<close>
  "row_offset s prio i =
     sum_list (map (\<lambda>ptr. no_variables (heap s ! ptr)) (take i (constraint_vector s ! prio)))"

definition jac_lookup :: "mat smap \<Rightarrow> string \<Rightarrow> mat" where
  \<comment> \<open>the Jacobian that \<^verbatim>\<open>jac_map_[k]\<close> refers to\<close>
  "jac_lookup jm k = snd (map_index (zero_jacobian 0) jm k)"

subsection \<open>Priority levels, as the specification words them\<close>

text \<open>
  \<open>level_configs\<close> reads the specifications of the constraints level by level out of the
  solver. \<open>priority_groups\<close> follows the specification: the constraints grouped by
  priority, one group per priority that occurs, in ascending order, each group in
  configuration order.
\<close>

definition level_configs :: "WbcVelocity \<Rightarrow> ConstraintConfig list list" where
  "level_configs s = map (map (\<lambda>ptr. config (heap s ! ptr))) (constraint_vector s)"

definition priority_groups :: "ConstraintConfig list \<Rightarrow> ConstraintConfig list list" where
  "priority_groups cfgs =
     map (\<lambda>p. filter (\<lambda>c. sint (priority c) = p) cfgs)
       (sort (remdups (map (\<lambda>c. sint (priority c)) cfgs)))"

subsection \<open>What an assembly leaves behind\<close>

definition holds_constraint :: "nat \<Rightarrow> nat \<Rightarrow> nat \<Rightarrow> ExtendedConstraint \<Rightarrow> LinearEquationSystem \<Rightarrow> bool" where
  \<comment> \<open>the rows from \<open>start\<close> on hold what lines 308 to 310 write for the constraint\<close>
  "holds_constraint start n n_joints c e \<longleftrightarrow>
     segment start n (eq_W_row e) = effective_weights c
     \<and> segment start n (eq_y_ref e) = y_ref_root c
     \<and> map (take n_joints) (segment start n (eq_A e)) = A_mat c"

definition rows_kept :: "nat \<Rightarrow> LinearEquationSystem \<Rightarrow> LinearEquationSystem \<Rightarrow> bool" where
  \<comment> \<open>the two systems have the same sizes and the same rows before \<open>r\<close>\<close>
  "rows_kept r e e' \<longleftrightarrow>
     length (eq_W_row e') = length (eq_W_row e) \<and> take r (eq_W_row e') = take r (eq_W_row e)
     \<and> length (eq_y_ref e') = length (eq_y_ref e) \<and> take r (eq_y_ref e') = take r (eq_y_ref e)
     \<and> length (eq_A e') = length (eq_A e) \<and> take r (eq_A e') = take r (eq_A e)"

definition same_config :: "WbcVelocity \<Rightarrow> WbcVelocity \<Rightarrow> bool" where
  \<comment> \<open>the solvers differ at most in the constraint objects and the entries of the registry\<close>
  "same_config s s' \<longleftrightarrow>
     s'\<lparr> jac_map := [], heap := [] \<rparr> = s\<lparr> jac_map := [], heap := [] \<rparr>
     \<and> jac_lookup (jac_map s') = jac_lookup (jac_map s)
     \<and> length (heap s') = length (heap s)"

definition constraint_assembled ::
  "(mat \<Rightarrow> mat \<times> vec \<times> mat) \<Rightarrow> (nat \<Rightarrow> nat \<Rightarrow> nat \<Rightarrow> int) \<Rightarrow> TaskFrame smap
     \<Rightarrow> WbcVelocity \<Rightarrow> WbcVelocity \<Rightarrow> LinearEquationSystem \<Rightarrow> nat \<Rightarrow> nat \<Rightarrow> bool" where
  \<comment> \<open>constraint \<open>k\<close> of priority \<open>prio\<close> was evaluated from its state in \<open>s\<close>, giving its state
      in \<open>s'\<close>, and the system \<open>e\<close> holds its rows\<close>
  "constraint_assembled svd now tfs s s' e prio k \<longleftrightarrow>
     (let ptr = constraint_vector s ! prio ! k; c = heap s ! ptr; c' = heap s' ! ptr
      in ptr < length (heap s)
         \<and> (\<exists>jm jm'. jac_lookup jm = jac_lookup (jac_map s')
               \<and> evaluate_constraint svd (now prio k 0) (now prio k 1) tfs (joint_index_map s) jm c
                    = (None, jm', c'))
         \<and> holds_constraint (row_offset s prio k) (no_variables c) (no_robot_joints s) c' e
         \<and> is_mat (no_variables c) (no_robot_joints s) (A_mat c')
         \<and> length (y_ref_root c') = no_variables c
         \<and> length (weights c') = no_variables c)"

subsection \<open>Example solvers\<close>

definition write_reference :: "nat \<Rightarrow> vec \<Rightarrow> real \<Rightarrow> int \<Rightarrow> WbcVelocity \<Rightarrow> WbcVelocity" where
  \<comment> \<open>a caller writes a reference value, an activation and the time of the update through
      the handle \<open>ptr\<close>\<close>
  "write_reference ptr y a t s =
     s\<lparr> heap := (heap s)[ptr := (heap s ! ptr)\<lparr> y_ref := y, activation := a, last_ref_input := t \<rparr>] \<rparr>"

definition two_joint_solver :: "real \<Rightarrow> WbcVelocity" where
  \<comment> \<open>a robot with the joints \<open>j1\<close>, \<open>j2\<close> and one joint constraint on \<open>j2\<close>, priority 0,
      weight 1, with the given timeout\<close>
  "two_joint_solver t =
     snd (configure [(joint_config ''c'' 0 [''j2''])\<lparr> timeout := t \<rparr>] [''j1'', ''j2'']
            (WbcVelocity_new 0))"

definition no_svd :: "mat \<Rightarrow> mat \<times> vec \<times> mat" where
  \<comment> \<open>for assemblies without Cartesian constraints\<close>
  "no_svd m = ([], [], [])"

definition arm_solver :: WbcVelocity where
  \<comment> \<open>a robot with the joint \<open>j1\<close> and one Cartesian constraint of priority 0 between the
      frames \<open>base\<close> (root) and \<open>hand\<close> (tip), its reference given in the frame \<open>tool\<close>\<close>
  "arm_solver =
     snd (configure [cart_config ''c'' 0 ''base'' ''hand'' ''tool''] [''j1''] (WbcVelocity_new 0))"

definition unit_x_jacobian :: mat where
  \<comment> \<open>the Jacobian of a frame that one joint moves along \<open>x\<close>: 6 rows, 1 column\<close>
  "unit_x_jacobian = [[1], [0], [0], [0], [0], [0]]"

definition arm_frames :: "Vector \<Rightarrow> TaskFrame smap" where
  \<comment> \<open>\<open>base\<close> and \<open>hand\<close> at the origin, \<open>tool\<close> displaced by \<open>p\<close>, none rotated; joint
      \<open>j1\<close> moves \<open>hand\<close> along \<open>x\<close>\<close>
  "arm_frames p =
     [(''base'', fixed_frame (Frame rot_identity (Vector 0 0 0))),
      (''hand'', \<lparr> tf_joint_names = [''j1''], tf_jacobian = unit_x_jacobian,
                   tf_pose = Frame rot_identity (Vector 0 0 0) \<rparr>),
      (''tool'', fixed_frame (Frame rot_identity p))]"

definition identity_svd :: "mat \<Rightarrow> mat \<times> vec \<times> mat" where
  \<comment> \<open>the decomposition of the identity matrix: \<open>U = V = 1\<close>, all singular values 1\<close>
  "identity_svd m = (identity_mat 6, replicate 6 1, identity_mat 6)"

text \<open>
  A second input for the arm: both the root frame \<open>base\<close> and the tip frame \<open>hand\<close> are
  moved by the joint, and the decomposition reports the singular values 2, 1, 1, 1, 1, 0
  with a matrix \<open>U\<close> that exchanges the first two directions. It takes the inversion loop
  through its scaling branch and through its zeroing branch.
\<close>

definition deficient_svd :: "mat \<Rightarrow> mat \<times> vec \<times> mat" where
  "deficient_svd m =
     ([[0, 1, 0, 0, 0, 0], [1, 0, 0, 0, 0, 0], [0, 0, 1, 0, 0, 0],
       [0, 0, 0, 1, 0, 0], [0, 0, 0, 0, 1, 0], [0, 0, 0, 0, 0, 1]],
      [2, 1, 1, 1, 1, 0],
      identity_mat 6)"

definition base_jacobian :: mat where
  "base_jacobian = [[0], [1], [0], [0], [0], [3]]"

definition hand_jacobian :: mat where
  "hand_jacobian = [[4], [0], [0], [0], [0], [5]]"

definition moving_frames :: "TaskFrame smap" where
  \<comment> \<open>\<open>base\<close>, \<open>hand\<close> and \<open>tool\<close> at the origin, none rotated; joint \<open>j1\<close> moves \<open>base\<close> and
      \<open>hand\<close>\<close>
  "moving_frames =
     [(''base'', \<lparr> tf_joint_names = [''j1''], tf_jacobian = base_jacobian,
                   tf_pose = Frame rot_identity (Vector 0 0 0) \<rparr>),
      (''hand'', \<lparr> tf_joint_names = [''j1''], tf_jacobian = hand_jacobian,
                   tf_pose = Frame rot_identity (Vector 0 0 0) \<rparr>),
      (''tool'', fixed_frame (Frame rot_identity (Vector 0 0 0)))]"

definition deficient_inverse :: mat where
  \<comment> \<open>the matrix \<^verbatim>\<open>H\<close> that the inversion loop and line 254 make of that decomposition\<close>
  "deficient_inverse =
     [[0, 1 / 2, 0, 0, 0, 0], [1, 0, 0, 0, 0, 0], [0, 0, 1, 0, 0, 0],
      [0, 0, 0, 1, 0, 0], [0, 0, 0, 0, 1, 0], [0, 0, 0, 0, 0, 0]]"

subsection \<open>Selection matrices, as the specification words them\<close>

definition selection_row :: "nat \<Rightarrow> nat \<Rightarrow> vec" where
  \<comment> \<open>1 at column \<open>idx\<close>, 0 elsewhere\<close>
  "selection_row n idx = (zero_vec n)[idx := 1]"

definition selection_matrix :: "nat smap \<Rightarrow> nat \<Rightarrow> string list \<Rightarrow> mat" where
  \<comment> \<open>one row per listed joint, selecting the column that the joint index map gives it\<close>
  "selection_matrix jim n jns =
     map (\<lambda>jn. case map_of jim jn of Some idx \<Rightarrow> selection_row n idx | None \<Rightarrow> zero_vec n) jns"

section \<open>Properties\<close>

subsection \<open>Evaluation rules\<close>

lemmas configure_eval =
  configure_def clear_def vector_resize_def ExtendedConstraint_new_def Let_def map_count_def
  erase_empty_prios.simps count_constraints_def zero_vec_def zero_mat_def add_task_frame_def
  zero_jacobian_def WbcVelocity_new_def

subsection \<open>The \<^verbatim>\<open>configured_\<close> flag\<close>

lemma create_constraints_configured:
  "configured (snd (create_constraints cfgs jns s)) = configured s"
  by (induction cfgs arbitrary: s) (simp_all add: Let_def)

lemma create_tf_map_configured:
  "configured (create_tf_map m s) = configured s"
  by (induction m s rule: create_tf_map.induct) (simp_all add: Let_def add_task_frame_def)

lemma configure_failure_keeps_flag:
  "\<not> fst (configure cfgs jns s) \<Longrightarrow> configured (snd (configure cfgs jns s)) = configured s"
  by (auto simp: configure_def Let_def clear_def create_constraints_configured
           split: option.splits)

lemma configure_success_sets_flag:
  "fst (configure cfgs jns s) \<Longrightarrow> configured (snd (configure cfgs jns s))"
  by (auto simp: configure_def Let_def split: option.splits if_splits)

lemma configure_success:
  assumes "configure cfgs jns s = (True, s')"
  shows "\<exists>mp s5. check_priorities cfgs 0 = Some mp
     \<and> create_constraints cfgs jns
          (clear s\<lparr> no_robot_joints := length jns,
                     joint_index_map := fill_joint_index_map jns 0 [],
                     constraint_vector := replicate (nat (mp + 1)) [] \<rparr>) = (True, s5)
     \<and> s' = (create_tf_map (constraint_map s5)
               (s5\<lparr> constraint_vector := erase_empty_prios 0 (constraint_vector s5),
                     n_constraints_per_prio :=
                       count_constraints (heap s5) (erase_empty_prios 0 (constraint_vector s5)),
                     n_prios := length (erase_empty_prios 0 (constraint_vector s5)) \<rparr>))
             \<lparr> configured := True \<rparr>"
proof -
  from assms obtain mp where mp: "check_priorities cfgs 0 = Some mp"
    by (cases "check_priorities cfgs 0") (simp_all add: configure_def Let_def)
  let ?s4 = "clear s\<lparr> no_robot_joints := length jns,
                     joint_index_map := fill_joint_index_map jns 0 [],
                     constraint_vector := replicate (nat (mp + 1)) [] \<rparr>"
  obtain b s5 where r: "create_constraints cfgs jns ?s4 = (b, s5)"
    by (cases "create_constraints cfgs jns ?s4")
  from assms mp r have "b"
    by (simp add: configure_def Let_def clear_def vector_resize_def split: if_splits)
  moreover from assms mp r \<open>b\<close> have "s' = (create_tf_map (constraint_map s5)
               (s5\<lparr> constraint_vector := erase_empty_prios 0 (constraint_vector s5),
                     n_constraints_per_prio :=
                       count_constraints (heap s5) (erase_empty_prios 0 (constraint_vector s5)),
                     n_prios := length (erase_empty_prios 0 (constraint_vector s5)) \<rparr>))
             \<lparr> configured := True \<rparr>"
    by (simp add: configure_def Let_def clear_def vector_resize_def count_constraints_def)
  ultimately show ?thesis using mp r by auto
qed

text \<open>
  C1. After a failing \<^verbatim>\<open>configure\<close> the solver should reject constraint lookup and equation
  assembly with the not-configured error, also when the failing call reconfigures a solver
  that was configured before. The code does not: \<^verbatim>\<open>clear\<close> resets every member but
  \<^verbatim>\<open>configured_\<close>. Here a solver is configured with the joint constraint \<open>a\<close>, then
  reconfigured with a constraint of priority \<open>-1\<close>. The second call fails, the flag stays
  set, the lookup of \<open>a\<close> passes the not-configured guard and ends in the unknown-name error,
  and the assembly passes the guard too and then indexes the emptied priority vector with
  the level count of the first configuration.
\<close>

theorem failed_reconfigure_stays_configured:
  "fst (configure [joint_config ''a'' 0 [''j1'']] [''j1''] (WbcVelocity_new n0))
   \<and> (let s1 = snd (configure [joint_config ''a'' 0 [''j1'']] [''j1''] (WbcVelocity_new n0));
           r = configure [joint_config ''b'' (- 1) [''j1'']] [''j1''] s1
       in \<not> fst r
          \<and> configured (snd r)
          \<and> constraint ''a'' (snd r) = Inl InvalidConstraintName
          \<and> fst (prepareEqSystem svd now [] (snd r) []) = Some OutOfRange)"
  by (simp add: configure_eval joint_config_def constraint_def prepareEqSystem_def les_empty_def)

subsection \<open>Introspection before \<^verbatim>\<open>configure\<close>\<close>

lemma getConstraintVector_new_zero:
  "getConstraintVector (WbcVelocity_new 0) cs = Inr []"
  by (simp add: getConstraintVector_def WbcVelocity_new_def vector_resize_def)

text \<open>
  C10. Before \<^verbatim>\<open>configure\<close>, \<^verbatim>\<open>jointNames\<close> returns the empty list and \<^verbatim>\<open>getConstraintVector\<close>
  should give a snapshot with no level. The first holds. The second reads \<^verbatim>\<open>n_prios_\<close>, which
  the constructor never assigns: when the member holds 1, the snapshot is resized to one
  level and the empty priority vector is indexed at 0.
\<close>

theorem introspection_before_configure:
  "jointNames (WbcVelocity_new 1) = (Inr [], WbcVelocity_new 1)
   \<and> getConstraintVector (WbcVelocity_new 1) [] = Inl OutOfRange"
  by (simp add: jointNames_def getConstraintVector_def WbcVelocity_new_def vector_resize_def)

subsection \<open>The joint index map and \<^verbatim>\<open>jointNames\<close>\<close>

lemma map_of_map_set: "map_of (map_set k v m) = (map_of m)(k \<mapsto> v)"
  by (induction m) (auto simp: fun_upd_twist)

lemma keys_map_set: "fst ` set (map_set k v m) = insert k (fst ` set m)"
  by (simp add: dom_map_of_conv_image_fst [symmetric] map_of_map_set)

lemma sorted_map_set:
  "sorted_wrt (<) (map fst m) \<Longrightarrow> sorted_wrt (<) (map fst (map_set k v m))"
proof (induction m)
  case Nil
  then show ?case by simp
next
  case (Cons a m)
  obtain k' v' where a: "a = (k', v')" by (cases a)
  from Cons.prems have tl: "sorted_wrt (<) (map fst m)" and hd: "\<forall>x \<in> fst ` set m. k' < x"
    by (auto simp: a)
  show ?case
  proof (cases "k = k'")
    case True
    with Cons.prems show ?thesis by (simp add: a)
  next
    case False
    show ?thesis
    proof (cases "k < k'")
      case True
      with hd tl show ?thesis by (auto simp: a)
    next
      case nlt: False
      with False have "k' < k" by auto
      with hd have "\<forall>x \<in> fst ` set (map_set k v m). k' < x"
        by (simp add: keys_map_set)
      with Cons.IH [OF tl] False nlt show ?thesis by (auto simp: a)
    qed
  qed
qed

lemma fill_joint_index_map_sorted:
  "sorted_wrt (<) (map fst m) \<Longrightarrow> sorted_wrt (<) (map fst (fill_joint_index_map ns i m))"
  by (induction ns arbitrary: i m) (simp_all add: sorted_map_set)

lemma fill_joint_index_map_keys:
  "fst ` set (fill_joint_index_map ns i m) = set ns \<union> fst ` set m"
  by (induction ns arbitrary: i m) (auto simp: keys_map_set)

lemma fill_joint_index_map_other:
  "k \<notin> set ns \<Longrightarrow> map_of (fill_joint_index_map ns i m) k = map_of m k"
  by (induction ns arbitrary: i m) (auto simp: map_of_map_set)

lemma fill_joint_index_map_lookup:
  "distinct ns \<Longrightarrow> j < length ns \<Longrightarrow> map_of (fill_joint_index_map ns i m) (ns ! j) = Some (i + j)"
proof (induction ns arbitrary: i m j)
  case Nil
  then show ?case by simp
next
  case (Cons n ns)
  show ?case
  proof (cases j)
    case 0
    with Cons.prems show ?thesis
      by (simp add: fill_joint_index_map_other map_of_map_set)
  next
    case (Suc j')
    with Cons.prems Cons.IH [of j' "Suc i" "map_set n i m"] show ?thesis by simp
  qed
qed

lemma sorted_keys_distinct: "sorted_wrt (<) (map fst (m :: 'v smap)) \<Longrightarrow> distinct (map fst m)"
  by (simp add: strict_sorted_iff)

lemma fill_joint_names_target:
  "\<forall>e \<in> set es. snd e < length res \<and> snd e < length tgt \<and> tgt ! snd e = fst e \<Longrightarrow>
   \<exists>res'. fill_joint_names es res = Inr res' \<and> length res' = length res
          \<and> (\<forall>i < length res. res' ! i = (if i \<in> snd ` set es then tgt ! i else res ! i))"
proof (induction es arbitrary: res)
  case Nil
  then show ?case by simp
next
  case (Cons e es)
  obtain nm idx where e: "e = (nm, idx)" by (cases e)
  from Cons.prems have idx: "idx < length res" "tgt ! idx = nm" by (auto simp: e)
  from Cons.prems have "\<forall>e \<in> set es. snd e < length (res[idx := nm]) \<and> snd e < length tgt \<and> tgt ! snd e = fst e"
    by simp
  from Cons.IH [OF this] obtain res' where r: "fill_joint_names es (res[idx := nm]) = Inr res'"
    "length res' = length res"
    "\<forall>i < length res. res' ! i = (if i \<in> snd ` set es then tgt ! i else res[idx := nm] ! i)"
    by auto
  have "\<forall>i < length res. res' ! i = (if i \<in> snd ` set (e # es) then tgt ! i else res ! i)"
    using r(3) idx by (auto simp: e nth_list_update)
  with r idx show ?case by (simp add: e)
qed

lemma create_constraints_joint_index_map:
  "joint_index_map (snd (create_constraints cfgs jns s)) = joint_index_map s"
  by (induction cfgs arbitrary: s) (simp_all add: Let_def)

lemma create_tf_map_joint_index_map:
  "joint_index_map (create_tf_map m s) = joint_index_map s"
  by (induction m s rule: create_tf_map.induct) (simp_all add: Let_def add_task_frame_def)

lemma configure_joint_index_map:
  "joint_index_map (snd (configure cfgs jns s)) = fill_joint_index_map jns 0 []"
  by (auto simp: configure_def Let_def clear_def create_constraints_joint_index_map
        create_tf_map_joint_index_map split: option.splits)

lemma joint_names_roundtrip:
  assumes "distinct jns"
  shows "fill_joint_names (fill_joint_index_map jns 0 [])
           (replicate (length (fill_joint_index_map jns 0 [])) []) = Inr jns"
proof -
  let ?m = "fill_joint_index_map jns 0 []"
  have sorted: "sorted_wrt (<) (map fst ?m)"
    by (rule fill_joint_index_map_sorted) simp
  then have dist: "distinct (map fst ?m)" by (rule sorted_keys_distinct)
  have keys: "fst ` set ?m = set jns"
    by (simp add: fill_joint_index_map_keys)
  have "length ?m = card (fst ` set ?m)"
    using dist by (metis distinct_card length_map set_map)
  with keys assms have len: "length ?m = length jns"
    by (simp add: distinct_card)
  have entry: "snd e < length jns \<and> jns ! snd e = fst e" if "e \<in> set ?m" for e
  proof -
    from that keys have "fst e \<in> set jns" by force
    then obtain j where j: "j < length jns" "jns ! j = fst e"
      by (auto simp: in_set_conv_nth)
    from fill_joint_index_map_lookup [OF assms j(1), of 0 "[]"] j
    have "map_of ?m (fst e) = Some j" by simp
    moreover have "(fst e, snd e) \<in> set ?m" using that by simp
    with dist have "map_of ?m (fst e) = Some (snd e)"
      by (simp only: map_of_eq_Some_iff)
    ultimately show ?thesis using j by simp
  qed
  have all: "i \<in> snd ` set ?m" if "i < length jns" for i
  proof -
    from fill_joint_index_map_lookup [OF assms that, of 0 "[]"]
    have "map_of ?m (jns ! i) = Some i" by simp
    then have "(jns ! i, i) \<in> set ?m" by (rule map_of_SomeD)
    then show ?thesis by force
  qed
  have "\<forall>e \<in> set ?m. snd e < length (replicate (length ?m) ([] :: string))
          \<and> snd e < length jns \<and> jns ! snd e = fst e"
    using entry len by simp
  from fill_joint_names_target [OF this] obtain res' where
    r: "fill_joint_names ?m (replicate (length ?m) []) = Inr res'" "length res' = length jns"
       "\<forall>i < length jns. res' ! i = (if i \<in> snd ` set ?m then jns ! i else replicate (length ?m) [] ! i)"
    using len by auto
  from r(3) all have "\<forall>i < length jns. res' ! i = jns ! i" by simp
  with r(2) have "res' = jns" by (simp add: list_eq_iff_nth_eq)
  with r(1) show ?thesis by simp
qed

text \<open>
  C9. \<^verbatim>\<open>configure\<close> takes any list of joint names, and the joint index map, keyed by name,
  holds each name once. When \<^verbatim>\<open>configure\<close> succeeds and no joint name is repeated,
  \<^verbatim>\<open>jointNames\<close> returns the joint-name list given to \<^verbatim>\<open>configure\<close>, in the same order, and
  leaves the solver as it was.
\<close>

theorem jointNames_roundtrip:
  assumes "distinct jns" and "configure cfgs jns s = (True, s')"
  shows "jointNames s' = (Inr jns, s')"
proof -
  from assms(2) have "joint_index_map s' = fill_joint_index_map jns 0 []"
    using configure_joint_index_map [of cfgs jns s] by simp
  with joint_names_roundtrip [OF assms(1)] show ?thesis
    by (simp add: jointNames_def)
qed

theorem jointNames_roundtrip_witness:
  "distinct [''j1'', ''j2'']
   \<and> (\<exists>s'. configure [joint_config ''c'' 0 [''j2'']] [''j1'', ''j2''] (WbcVelocity_new 0) = (True, s')
           \<and> jointNames s' = (Inr [''j1'', ''j2''], s'))"
proof -
  have d: "distinct [''j1'', ''j2'']" by simp
  have "fst (configure [joint_config ''c'' 0 [''j2'']] [''j1'', ''j2''] (WbcVelocity_new 0))"
    by (simp add: configure_eval joint_config_def)
  then obtain s' where c: "configure [joint_config ''c'' 0 [''j2'']] [''j1'', ''j2''] (WbcVelocity_new 0) = (True, s')"
    by (cases "configure [joint_config ''c'' 0 [''j2'']] [''j1'', ''j2''] (WbcVelocity_new 0)") auto
  from jointNames_roundtrip [OF d c] d c show ?thesis by blast
qed

text \<open>
  Without the condition on the names the round trip fails. \<^verbatim>\<open>configure\<close> accepts the joint
  names \<open>a, a\<close>. The name has one entry in the joint index map, under the later index 1, so
  the list that \<^verbatim>\<open>jointNames\<close> allocates has one element, and the assignment
  \<^verbatim>\<open>joint_names[it->second]\<close> at index 1 is out of range: the call does not return the list
  that was configured.
\<close>

theorem jointNames_repeated_name:
  "fst (configure [] [''a'', ''a''] (WbcVelocity_new 0))
   \<and> fst (jointNames (snd (configure [] [''a'', ''a''] (WbcVelocity_new 0)))) = Inl OutOfRange
   \<and> fst (jointNames (snd (configure [] [''a'', ''a''] (WbcVelocity_new 0)))) \<noteq> Inr [''a'', ''a'']"
  by (simp add: configure_eval jointNames_def)

subsection \<open>Priority levels after \<^verbatim>\<open>configure\<close>\<close>

lemma check_priorities_Some:
  "check_priorities cs m0 = Some mp \<Longrightarrow>
   (\<forall>c \<in> set cs. 0 \<le> sint (priority c) \<and> sint (priority c) \<le> mp) \<and> m0 \<le> mp"
proof (induction cs arbitrary: m0)
  case Nil
  then show ?case by simp
next
  case (Cons c cs)
  from Cons.prems have nn: "0 \<le> sint (priority c)"
    and rec: "check_priorities cs (if sint (priority c) > m0 then sint (priority c) else m0) = Some mp"
    by (auto split: if_splits)
  from Cons.IH [OF rec] nn show ?case by (auto split: if_splits)
qed

lemma check_priorities_max:
  "check_priorities cs m0 = Some mp \<Longrightarrow> mp \<in> insert m0 ((\<lambda>c. sint (priority c)) ` set cs)"
proof (induction cs arbitrary: m0)
  case Nil
  then show ?case by simp
next
  case (Cons c cs)
  from Cons.prems
  have "check_priorities cs (if sint (priority c) > m0 then sint (priority c) else m0) = Some mp"
    by (auto split: if_splits)
  from Cons.IH [OF this] show ?case by (auto split: if_splits)
qed

lemma erase_empty_prios_filter:
  "length cv < 2 ^ 32 \<Longrightarrow>
   erase_empty_prios prio cv = take (unat prio) cv @ filter (\<lambda>l. l \<noteq> []) (drop (unat prio) cv)"
proof (induction prio cv rule: erase_empty_prios.induct)
  case (1 prio cv)
  show ?case
  proof (cases "unat prio < length cv")
    case False
    with "1.prems" show ?thesis by (simp add: erase_empty_prios.simps)
  next
    case lt: True
    show ?thesis
    proof (cases "cv ! unat prio = []")
      case True
      let ?cv' = "take (unat prio) cv @ drop (unat prio + 1) cv"
      have len: "length ?cv' < 2 ^ 32" using "1.prems" by simp
      have "erase_empty_prios prio cv = erase_empty_prios (prio - 1 + 1) ?cv'"
        using lt True "1.prems" by (subst erase_empty_prios.simps) simp
      also have "\<dots> = take (unat prio) ?cv' @ filter (\<lambda>l. l \<noteq> []) (drop (unat prio) ?cv')"
        using "1.IH"(1) [OF _ True len] lt "1.prems" by simp
      also have "take (unat prio) ?cv' = take (unat prio) cv" using lt by simp
      also have "drop (unat prio) ?cv' = drop (Suc (unat prio)) cv" using lt by simp
      also have "filter (\<lambda>l. l \<noteq> []) (drop (Suc (unat prio)) cv)
                   = filter (\<lambda>l. l \<noteq> []) (drop (unat prio) cv)"
        using True lt by (simp add: Cons_nth_drop_Suc [symmetric])
      finally show ?thesis .
    next
      case False
      from lt "1.prems" have "unat prio + 1 < 2 ^ 32" by simp
      then have un: "unat (prio + 1) = Suc (unat prio)"
        by (simp add: unat_add_lem [THEN iffD1])
      have "erase_empty_prios prio cv = erase_empty_prios (prio + 1) cv"
        using lt False "1.prems" by (subst erase_empty_prios.simps) simp
      also have "\<dots> = take (Suc (unat prio)) cv @ filter (\<lambda>l. l \<noteq> []) (drop (Suc (unat prio)) cv)"
        using "1.IH"(2) [OF _ False "1.prems"] lt "1.prems" un by simp
      also have "\<dots> = take (unat prio) cv @ filter (\<lambda>l. l \<noteq> []) (drop (unat prio) cv)"
        using False lt by (simp add: take_Suc_conv_app_nth Cons_nth_drop_Suc [symmetric])
      finally show ?thesis .
    qed
  qed
qed

lemma config_ExtendedConstraint_new [simp]: "config (ExtendedConstraint_new c jns) = c"
  by (simp add: ExtendedConstraint_new_def Let_def)

lemma create_constraints_levels:
  assumes "create_constraints cs jns s = (True, s')"
    and "\<forall>c \<in> set cs. nat (sint (priority c)) < length (constraint_vector s)"
    and "\<forall>l \<in> set (constraint_vector s). \<forall>q \<in> set l. q < length (heap s)"
  shows "length (constraint_vector s') = length (constraint_vector s)
     \<and> (\<forall>l \<in> set (constraint_vector s'). \<forall>q \<in> set l. q < length (heap s'))
     \<and> (\<forall>p < length (constraint_vector s).
           map (\<lambda>q. config (heap s' ! q)) (constraint_vector s' ! p)
           = map (\<lambda>q. config (heap s ! q)) (constraint_vector s ! p)
             @ filter (\<lambda>c. nat (sint (priority c)) = p) cs)"
  using assms
proof (induction cs arbitrary: s)
  case Nil
  then show ?case by simp
next
  case (Cons c cs)
  let ?prio = "nat (sint (priority c))"
  let ?h = "heap s"
  let ?cv = "constraint_vector s"
  let ?s1 = "s\<lparr> heap := ?h @ [ExtendedConstraint_new c jns],
                  constraint_vector := ?cv[?prio := ?cv ! ?prio @ [length ?h]] \<rparr>"
  let ?s2 = "?s1\<lparr> constraint_map := map_set (name c) (length ?h) (constraint_map ?s1) \<rparr>"
  from Cons.prems(1) have rec: "create_constraints cs jns ?s2 = (True, s')"
    by (simp add: Let_def split: if_splits)
  from Cons.prems(2) have pr: "?prio < length ?cv" by simp
  have valid2: "\<forall>l \<in> set (constraint_vector ?s2). \<forall>q \<in> set l. q < length (heap ?s2)"
  proof (intro ballI)
    fix l q assume l: "l \<in> set (constraint_vector ?s2)" and q: "q \<in> set l"
    from l have "l \<in> insert (?cv ! ?prio @ [length ?h]) (set ?cv)"
      using set_update_subset_insert [of ?cv ?prio] by auto
    with q Cons.prems(3) pr show "q < length (heap ?s2)"
      by (auto simp: less_Suc_eq dest: nth_mem)
  qed
  have range2: "\<forall>c \<in> set cs. nat (sint (priority c)) < length (constraint_vector ?s2)"
    using Cons.prems(2) by simp
  note IH = Cons.IH [OF rec range2 valid2]
  have step: "map (\<lambda>q. config (heap ?s2 ! q)) (constraint_vector ?s2 ! p)
        = map (\<lambda>q. config (?h ! q)) (?cv ! p) @ (if ?prio = p then [c] else [])"
    if p: "p < length ?cv" for p
  proof -
    have old: "map (\<lambda>q. config ((?h @ [ExtendedConstraint_new c jns]) ! q)) (?cv ! p)
                 = map (\<lambda>q. config (?h ! q)) (?cv ! p)"
      using Cons.prems(3) p by (auto simp: nth_append dest: nth_mem)
    show ?thesis
    proof (cases "?prio = p")
      case True
      with p old show ?thesis by simp
    next
      case False
      with p old show ?thesis by simp
    qed
  qed
  have "map (\<lambda>q. config (heap s' ! q)) (constraint_vector s' ! p)
           = map (\<lambda>q. config (?h ! q)) (?cv ! p)
             @ filter (\<lambda>c. nat (sint (priority c)) = p) (c # cs)"
    if p: "p < length ?cv" for p
    using IH step [OF p] p by simp
  with IH show ?case by simp
qed

lemma create_tf_map_heap [simp]: "heap (create_tf_map m s) = heap s"
  by (induction m s rule: create_tf_map.induct) (simp_all add: Let_def add_task_frame_def)

lemma create_tf_map_constraint_vector [simp]:
  "constraint_vector (create_tf_map m s) = constraint_vector s"
  by (induction m s rule: create_tf_map.induct) (simp_all add: Let_def add_task_frame_def)

lemma create_tf_map_n_prios [simp]: "n_prios (create_tf_map m s) = n_prios s"
  by (induction m s rule: create_tf_map.induct) (simp_all add: Let_def add_task_frame_def)

lemma ascending_priorities:
  assumes "\<forall>c \<in> set cfgs. 0 \<le> sint (priority c) \<and> sint (priority c) < int n"
  shows "map int (filter (\<lambda>p. filter (\<lambda>c. nat (sint (priority c)) = p) cfgs \<noteq> []) [0..<n])
         = sort (remdups (map (\<lambda>c. sint (priority c)) cfgs))"
proof (rule sorted_distinct_set_unique)
  let ?ps = "filter (\<lambda>p. filter (\<lambda>c. nat (sint (priority c)) = p) cfgs \<noteq> []) [0..<n]"
  show "sorted (map int ?ps)"
    by (simp add: sorted_map sorted_wrt_filter sorted_wrt_mono_rel [of _ "(<)"] sorted_wrt_upt)
  show "distinct (map int ?ps)" by (simp add: distinct_map inj_on_def)
  show "sorted (sort (remdups (map (\<lambda>c. sint (priority c)) cfgs)))" by simp
  show "distinct (sort (remdups (map (\<lambda>c. sint (priority c)) cfgs)))" by simp
  show "set (map int ?ps) = set (sort (remdups (map (\<lambda>c. sint (priority c)) cfgs)))"
  proof -
    have "set (map int ?ps) = int ` {p. p < n \<and> (\<exists>c \<in> set cfgs. nat (sint (priority c)) = p)}"
      by (auto simp: filter_empty_conv)
    also have "\<dots> = (\<lambda>c. sint (priority c)) ` set cfgs"
      using assms by (force simp: image_iff)
    finally show ?thesis by simp
  qed
qed

text \<open>
  C6. After a successful \<^verbatim>\<open>configure\<close> the priority levels are contiguous from 0: level
  \<open>k\<close> holds the constraints of the \<open>k\<close>-th smallest priority that occurs, in configuration
  order, and no level is empty. Priorities 0, 0, 3 give two levels.
\<close>

theorem configure_priority_levels:
  assumes "configure cfgs jns s = (True, s')"
  shows "level_configs s' = priority_groups cfgs
       \<and> n_prios s' = length (priority_groups cfgs)
       \<and> length (constraint_vector s') = n_prios s'"
proof -
  from configure_success [OF assms] obtain mp s5 where mp: "check_priorities cfgs 0 = Some mp"
    and ok: "create_constraints cfgs jns
          (clear s\<lparr> no_robot_joints := length jns,
                     joint_index_map := fill_joint_index_map jns 0 [],
                     constraint_vector := replicate (nat (mp + 1)) [] \<rparr>) = (True, s5)"
    and s': "s' = (create_tf_map (constraint_map s5)
               (s5\<lparr> constraint_vector := erase_empty_prios 0 (constraint_vector s5),
                     n_constraints_per_prio :=
                       count_constraints (heap s5) (erase_empty_prios 0 (constraint_vector s5)),
                     n_prios := length (erase_empty_prios 0 (constraint_vector s5)) \<rparr>))
             \<lparr> configured := True \<rparr>"
    by blast
  let ?n = "nat (mp + 1)"
  let ?s4 = "clear s\<lparr> no_robot_joints := length jns,
                     joint_index_map := fill_joint_index_map jns 0 [],
                     constraint_vector := replicate ?n [] \<rparr>"
  from check_priorities_Some [OF mp]
  have range: "\<forall>c \<in> set cfgs. 0 \<le> sint (priority c) \<and> sint (priority c) \<le> mp" and "0 \<le> mp"
    by auto
  from s' have cv': "constraint_vector s' = erase_empty_prios 0 (constraint_vector s5)"
    and h': "heap s' = heap s5"
    and np': "n_prios s' = length (constraint_vector s')"
    by simp_all
  have r4: "\<forall>c \<in> set cfgs. nat (sint (priority c)) < length (constraint_vector ?s4)"
    using range by auto
  have v4: "\<forall>l \<in> set (constraint_vector ?s4). \<forall>q \<in> set l. q < length (heap ?s4)"
    by simp
  from create_constraints_levels [OF ok r4 v4]
  have len5: "length (constraint_vector s5) = ?n"
    and lv5: "\<forall>p < ?n. map (\<lambda>q. config (heap s5 ! q)) (constraint_vector s5 ! p)
                  = filter (\<lambda>c. nat (sint (priority c)) = p) cfgs"
    by auto
  have "mp < 2 ^ 31"
    using check_priorities_max [OF mp] sint_lt [where 'a = 32] by auto
  then have small: "length (constraint_vector s5) < 2 ^ 32"
    using len5 \<open>0 \<le> mp\<close> by simp
  have lv5': "map (map (\<lambda>q. config (heap s5 ! q))) (constraint_vector s5)
              = map (\<lambda>p. filter (\<lambda>c. nat (sint (priority c)) = p) cfgs) [0..<?n]"
    using len5 lv5 by (simp add: list_eq_iff_nth_eq)
  have "level_configs s'
          = filter (\<lambda>l. l \<noteq> []) (map (map (\<lambda>q. config (heap s5 ! q))) (constraint_vector s5))"
    unfolding level_configs_def cv' h' erase_empty_prios_filter [OF small]
    by (simp add: filter_map comp_def)
  also have "\<dots> = map (\<lambda>p. filter (\<lambda>c. nat (sint (priority c)) = p) cfgs)
                     (filter (\<lambda>p. filter (\<lambda>c. nat (sint (priority c)) = p) cfgs \<noteq> []) [0..<?n])"
    unfolding lv5' by (simp add: filter_map comp_def)
  also have "\<dots> = map ((\<lambda>p. filter (\<lambda>c. sint (priority c) = p) cfgs) \<circ> int)
                     (filter (\<lambda>p. filter (\<lambda>c. nat (sint (priority c)) = p) cfgs \<noteq> []) [0..<?n])"
  proof -
    have "filter (\<lambda>c. nat (sint (priority c)) = p) cfgs
            = filter (\<lambda>c. sint (priority c) = int p) cfgs" for p
      using range by (intro filter_cong) auto
    then show ?thesis by (simp add: comp_def)
  qed
  also have "\<dots> = priority_groups cfgs"
  proof -
    have "\<forall>c \<in> set cfgs. 0 \<le> sint (priority c) \<and> sint (priority c) < int ?n"
      using range \<open>0 \<le> mp\<close> by auto
    from ascending_priorities [OF this] show ?thesis
      unfolding priority_groups_def by (simp only: map_map [symmetric])
  qed
  finally have lv: "level_configs s' = priority_groups cfgs" .
  then have "length (constraint_vector s') = length (priority_groups cfgs)"
    by (metis length_map level_configs_def)
  with lv np' show ?thesis by simp
qed


theorem configure_priority_levels_witness:
  "\<exists>s'. configure [joint_config ''a'' 0 [''j1''], joint_config ''b'' 0 [''j2''],
                      joint_config ''c'' 3 [''j1'']] [''j1'', ''j2''] (WbcVelocity_new 0) = (True, s')
        \<and> level_configs s' = [[joint_config ''a'' 0 [''j1''], joint_config ''b'' 0 [''j2'']],
                               [joint_config ''c'' 3 [''j1'']]]
        \<and> n_prios s' = 2 \<and> length (constraint_vector s') = 2"
proof -
  let ?cfgs = "[joint_config ''a'' 0 [''j1''], joint_config ''b'' 0 [''j2''],
                joint_config ''c'' 3 [''j1'']]"
  have "fst (configure ?cfgs [''j1'', ''j2''] (WbcVelocity_new 0))"
    by (simp add: configure_eval joint_config_def)
  then obtain s' where c: "configure ?cfgs [''j1'', ''j2''] (WbcVelocity_new 0) = (True, s')"
    by (cases "configure ?cfgs [''j1'', ''j2''] (WbcVelocity_new 0)") auto
  have g: "priority_groups ?cfgs = [[joint_config ''a'' 0 [''j1''], joint_config ''b'' 0 [''j2'']],
                                   [joint_config ''c'' 3 [''j1'']]]"
    by (simp add: priority_groups_def joint_config_def)
  from configure_priority_levels [OF c] c g show ?thesis by auto
qed

subsection \<open>The task frames that \<^verbatim>\<open>configure\<close> requires\<close>

lemma set_map_set_new:
  "map_of m k = None \<Longrightarrow> set (map_set k v m) = insert (k, v) (set m)"
  by (induction m) (auto split: if_splits)

lemma create_constraints_map:
  assumes "create_constraints cs jns s = (True, s')"
  shows "set (constraint_map s) \<subseteq> set (constraint_map s')
     \<and> length (heap s) \<le> length (heap s')
     \<and> (\<forall>q < length (heap s). heap s' ! q = heap s ! q)
     \<and> (\<forall>c \<in> set cs. \<exists>ptr. (name c, ptr) \<in> set (constraint_map s')
                               \<and> ptr < length (heap s') \<and> config (heap s' ! ptr) = c)"
  using assms
proof (induction cs arbitrary: s)
  case Nil
  then show ?case by simp
next
  case (Cons c cs)
  let ?h = "heap s"
  let ?cv = "constraint_vector s"
  let ?prio = "nat (sint (priority c))"
  let ?s1 = "s\<lparr> heap := ?h @ [ExtendedConstraint_new c jns],
                  constraint_vector := ?cv[?prio := ?cv ! ?prio @ [length ?h]] \<rparr>"
  let ?s2 = "?s1\<lparr> constraint_map := map_set (name c) (length ?h) (constraint_map ?s1) \<rparr>"
  from Cons.prems have new: "map_of (constraint_map s) (name c) = None"
    and rec: "create_constraints cs jns ?s2 = (True, s')"
    by (auto simp: Let_def map_count_def split: if_splits option.splits)
  note IH = Cons.IH [OF rec]
  have cm2: "set (constraint_map ?s2) = insert (name c, length ?h) (set (constraint_map s))"
    using new by (simp add: set_map_set_new)
  from IH have keep: "\<forall>q < Suc (length ?h). heap s' ! q = (?h @ [ExtendedConstraint_new c jns]) ! q"
    and len: "Suc (length ?h) \<le> length (heap s')"
    and sub: "set (constraint_map ?s2) \<subseteq> set (constraint_map s')"
    and rest: "\<forall>c \<in> set cs. \<exists>ptr. (name c, ptr) \<in> set (constraint_map s')
                               \<and> ptr < length (heap s') \<and> config (heap s' ! ptr) = c"
    by simp_all
  have "(name c, length ?h) \<in> set (constraint_map s')" using sub cm2 by auto
  moreover have "length ?h < length (heap s')" using len by simp
  moreover have "config (heap s' ! length ?h) = c" using keep
    by (simp add: ExtendedConstraint_new_def Let_def)
  ultimately have first: "\<exists>ptr. (name c, ptr) \<in> set (constraint_map s')
                               \<and> ptr < length (heap s') \<and> config (heap s' ! ptr) = c"
    by blast
  have "\<forall>q < length ?h. heap s' ! q = ?h ! q" using keep by (simp add: nth_append)
  with first rest sub cm2 len show ?case by auto
qed

lemma create_constraints_jac_map [simp]:
  "jac_map (snd (create_constraints cs jns s)) = jac_map s"
  by (induction cs arbitrary: s) (simp_all add: Let_def)

lemma create_constraints_task_frame_ids [simp]:
  "task_frame_ids (snd (create_constraints cs jns s)) = task_frame_ids s"
  by (induction cs arbitrary: s) (simp_all add: Let_def)

lemma add_task_frame_ids:
  assumes "fst ` set (jac_map s) \<subseteq> set (task_frame_ids s)"
  shows "fst ` set (jac_map (add_task_frame f s)) \<subseteq> set (task_frame_ids (add_task_frame f s))
       \<and> f \<in> set (task_frame_ids (add_task_frame f s))
       \<and> set (task_frame_ids s) \<subseteq> set (task_frame_ids (add_task_frame f s))
       \<and> heap (add_task_frame f s) = heap s"
proof (cases "map_of (jac_map s) f")
  case None
  with assms show ?thesis
    by (auto simp: add_task_frame_def map_count_def keys_map_set)
next
  case (Some j)
  then have "f \<in> fst ` set (jac_map s)"
    by (metis domI dom_map_of_conv_image_fst)
  with assms Some show ?thesis
    by (auto simp: add_task_frame_def map_count_def)
qed

lemma create_tf_map_ids:
  assumes "fst ` set (jac_map s) \<subseteq> set (task_frame_ids s)"
  shows "fst ` set (jac_map (create_tf_map es s)) \<subseteq> set (task_frame_ids (create_tf_map es s))
       \<and> set (task_frame_ids s) \<subseteq> set (task_frame_ids (create_tf_map es s))
       \<and> (\<forall>e \<in> set es. ctype (config (heap s ! snd e)) = cart \<longrightarrow>
             {root_frame (config (heap s ! snd e)), tip (config (heap s ! snd e)),
              ref_frame (config (heap s ! snd e))} \<subseteq> set (task_frame_ids (create_tf_map es s)))"
  using assms
proof (induction es s rule: create_tf_map.induct)
  case (1 s)
  then show ?case by simp
next
  case (2 nm ptr it s)
  let ?cfg = "config (heap s ! ptr)"
  show ?case
  proof (cases "ctype ?cfg = cart")
    case False
    with "2.IH"(2) [OF refl False "2.prems"] show ?thesis by (simp add: Let_def)
  next
    case True
    let ?sa = "add_task_frame (root_frame ?cfg) s"
    let ?sb = "add_task_frame (tip ?cfg) ?sa"
    let ?sc = "add_task_frame (ref_frame ?cfg) ?sb"
    note a = add_task_frame_ids [OF "2.prems", of "root_frame ?cfg"]
    from a have ia: "fst ` set (jac_map ?sa) \<subseteq> set (task_frame_ids ?sa)" by simp
    note b = add_task_frame_ids [OF ia, of "tip ?cfg"]
    from b have ib: "fst ` set (jac_map ?sb) \<subseteq> set (task_frame_ids ?sb)" by simp
    note c = add_task_frame_ids [OF ib, of "ref_frame ?cfg"]
    from c have ic: "fst ` set (jac_map ?sc) \<subseteq> set (task_frame_ids ?sc)" by simp
    have hc: "heap ?sc = heap s" using a b c by simp
    have ids: "{root_frame ?cfg, tip ?cfg, ref_frame ?cfg} \<subseteq> set (task_frame_ids ?sc)"
      and grow: "set (task_frame_ids s) \<subseteq> set (task_frame_ids ?sc)"
      using a b c by auto
    from "2.IH"(1) [OF refl True ic] ids grow hc True show ?thesis
      by (simp add: Let_def subset_iff)
  qed
qed

lemma check_task_frames_iff:
  "check_task_frames ids tfs \<longleftrightarrow> (\<forall>i \<in> set ids. map_of tfs i \<noteq> None)"
  by (induction ids) (auto simp: map_count_def split: option.splits)

lemma configure_task_frame_ids:
  assumes "configure cfgs jns s = (True, s')" and "c \<in> set cfgs" and "ctype c = cart"
  shows "{root_frame c, tip c, ref_frame c} \<subseteq> set (task_frame_ids s')"
proof -
  from configure_success [OF assms(1)] obtain mp s5 where
    ok: "create_constraints cfgs jns
          (clear s\<lparr> no_robot_joints := length jns,
                     joint_index_map := fill_joint_index_map jns 0 [],
                     constraint_vector := replicate (nat (mp + 1)) [] \<rparr>) = (True, s5)"
    and s': "s' = (create_tf_map (constraint_map s5)
               (s5\<lparr> constraint_vector := erase_empty_prios 0 (constraint_vector s5),
                     n_constraints_per_prio :=
                       count_constraints (heap s5) (erase_empty_prios 0 (constraint_vector s5)),
                     n_prios := length (erase_empty_prios 0 (constraint_vector s5)) \<rparr>))
             \<lparr> configured := True \<rparr>"
    by blast
  let ?s8 = "s5\<lparr> constraint_vector := erase_empty_prios 0 (constraint_vector s5),
                   n_constraints_per_prio :=
                     count_constraints (heap s5) (erase_empty_prios 0 (constraint_vector s5)),
                   n_prios := length (erase_empty_prios 0 (constraint_vector s5)) \<rparr>"
  from s' have ids: "task_frame_ids s' = task_frame_ids (create_tf_map (constraint_map s5) ?s8)"
    by simp
  from create_constraints_map [OF ok] assms(2) obtain ptr where
    ptr: "(name c, ptr) \<in> set (constraint_map s5)" "config (heap s5 ! ptr) = c"
    by blast
  let ?s4 = "clear s\<lparr> no_robot_joints := length jns,
                     joint_index_map := fill_joint_index_map jns 0 [],
                     constraint_vector := replicate (nat (mp + 1)) [] \<rparr>"
  have "jac_map (snd (create_constraints cfgs jns ?s4)) = []"
    and "task_frame_ids (snd (create_constraints cfgs jns ?s4)) = []"
    by (simp_all add: clear_def)
  with ok have "jac_map s5 = []" "task_frame_ids s5 = []"
    by simp_all
  then have "fst ` set (jac_map ?s8) \<subseteq> set (task_frame_ids ?s8)"
    by simp
  from create_tf_map_ids [OF this, of "constraint_map s5"] ptr assms(3) ids
  show ?thesis by force
qed

subsection \<open>The loops of the assembly\<close>

lemma jac_lookup_map_index:
  "jac_lookup (fst (map_index (zero_jacobian 0) jm k)) = jac_lookup jm"
  "snd (map_index (zero_jacobian 0) jm k) = jac_lookup jm k"
  by (auto simp: jac_lookup_def map_index_def map_of_map_set fun_eq_iff split: option.splits)

lemma cart_constraint_Inr:
  assumes "cart_constraint svd tfs jm c = Inr (jm', c')"
  shows "\<exists>tf_root tf_tip tf_ref U S V U'.
           map_of tfs (root_frame (config c)) = Some tf_root
         \<and> map_of tfs (tip (config c)) = Some tf_tip
         \<and> map_of tfs (ref_frame (config c)) = Some tf_ref
         \<and> svd (local_jacobian (tf_pose tf_root)
                  (frame_mul (frame_inverse (tf_pose tf_root)) (tf_pose tf_tip))) = (U, S, V)
         \<and> invert_singular_values 0 S U = Inr U'
         \<and> jac_lookup jm' = jac_lookup jm
         \<and> c' = c\<lparr> pose_tip_in_root := frame_mul (frame_inverse (tf_pose tf_root)) (tf_pose tf_tip),
                   jac_helper := local_jacobian (tf_pose tf_root)
                                   (frame_mul (frame_inverse (tf_pose tf_root)) (tf_pose tf_tip)),
                   Uf := U', Sf := S, Vf := V,
                   H_mat := mat_mul (length U') V (transpose_mat (jac_columns U') U'),
                   A_mat := mat_sub
                     (mat_mul (jac_columns (jac_lookup jm (tip (config c))))
                        (block_rows (no_variables c) 6 (mat_mul (length U') V (transpose_mat (jac_columns U') U')))
                        (jac_lookup jm (tip (config c))))
                     (mat_mul (jac_columns (jac_lookup jm (root_frame (config c))))
                        (block_rows (no_variables c) 6 (mat_mul (length U') V (transpose_mat (jac_columns U') U')))
                        (jac_lookup jm (root_frame (config c)))),
                   pose_ref_frame_in_root := frame_mul (frame_inverse (tf_pose tf_root)) (tf_pose tf_ref),
                   y_ref_root := twist_to_root (frame_mul (frame_inverse (tf_pose tf_root)) (tf_pose tf_ref))
                                   (y_ref c) @ drop 6 (y_ref_root c) \<rparr>
         \<and> 6 \<le> length (y_ref c) \<and> 6 \<le> length (y_ref_root c)"
proof -
  from assms obtain tf_root tf_tip tf_ref where
    tf: "map_of tfs (root_frame (config c)) = Some tf_root"
        "map_of tfs (tip (config c)) = Some tf_tip"
        "map_of tfs (ref_frame (config c)) = Some tf_ref"
    by (auto simp: cart_constraint_def split: option.splits)
  obtain U S V where svd: "svd (local_jacobian (tf_pose tf_root)
                  (frame_mul (frame_inverse (tf_pose tf_root)) (tf_pose tf_tip))) = (U, S, V)"
    by (metis prod_cases3)
  from assms tf svd obtain U' where inv: "invert_singular_values 0 S U = Inr U'"
    by (auto simp: cart_constraint_def Let_def split: sum.splits)
  obtain jm1 jr where m1: "map_index (zero_jacobian 0) jm (root_frame (config c)) = (jm1, jr)"
    by (cases "map_index (zero_jacobian 0) jm (root_frame (config c))")
  obtain jm2 jt where m2: "map_index (zero_jacobian 0) jm1 (tip (config c)) = (jm2, jt)"
    by (cases "map_index (zero_jacobian 0) jm1 (tip (config c))")
  from m1 jac_lookup_map_index [of jm "root_frame (config c)"]
  have j1: "jac_lookup jm1 = jac_lookup jm" "jr = jac_lookup jm (root_frame (config c))" by simp_all
  from m2 jac_lookup_map_index [of jm1 "tip (config c)"] j1
  have j2: "jac_lookup jm2 = jac_lookup jm" "jt = jac_lookup jm (tip (config c))" by simp_all
  from assms tf svd inv m1 m2 j1 j2 show ?thesis
    by (simp add: cart_constraint_def Let_def split: if_splits) auto
qed

lemma same_config_refl [simp]: "same_config s s"
  by (simp add: same_config_def)

lemma same_config_trans: "same_config s s1 \<Longrightarrow> same_config s1 s2 \<Longrightarrow> same_config s s2"
  by (simp add: same_config_def)

lemma same_config_fields:
  assumes "same_config s s'"
  shows "joint_index_map s' = joint_index_map s" "no_robot_joints s' = no_robot_joints s"
    "constraint_vector s' = constraint_vector s" "n_constraints_per_prio s' = n_constraints_per_prio s"
    "n_prios s' = n_prios s" "configured s' = configured s" "task_frame_ids s' = task_frame_ids s"
    "constraint_map s' = constraint_map s" "jac_lookup (jac_map s') = jac_lookup (jac_map s)"
    "length (heap s') = length (heap s)"
  using assms by (cases s; cases s'; simp add: same_config_def)+

lemma segment_take: "start + n \<le> r \<Longrightarrow> segment start n (take r xs) = segment start n xs"
  by (simp add: segment_def take_drop min_def)


lemma set_segment_Some:
  assumes "set_segment start n new old = Some res"
  shows "length res = length old" "take start res = take start old"
    "segment start n res = new" "length new = n" "start + n \<le> length old"
  using assms by (auto simp: set_segment_def segment_def split: if_splits)

lemma set_block_Some:
  assumes "set_block start n ncols new old = Some res"
  shows "length res = length old" "take start res = take start old"
    "map (take ncols) (segment start n res) = new" "is_mat n ncols new"
proof -
  from assms have le: "start + n \<le> length old" and m: "is_mat n ncols new"
    and res: "res = take start old
                 @ map2 (\<lambda>nw od. nw @ drop ncols od) new (take n (drop start old))
                 @ drop (start + n) old"
    by (auto simp: set_block_def split: if_splits)
  from m have ln: "length new = n" and rows: "\<forall>row \<in> set new. length row = ncols"
    by (auto simp: is_mat_def list_all_iff)
  show "length res = length old" using le ln by (simp add: res)
  show "take start res = take start old" using le by (simp add: res)
  show "is_mat n ncols new" by fact
  have "segment start n res = map2 (\<lambda>nw od. nw @ drop ncols od) new (take n (drop start old))"
    using le ln by (simp add: res segment_def)
  moreover have "map (take ncols) (map2 (\<lambda>nw od. nw @ drop ncols od) new ys) = new"
    if "length ys = length new" for ys
    using that rows
  proof (induction new ys rule: list_induct2')
    case (4 x xs y ys)
    then show ?case by simp
  qed simp_all
  ultimately show "map (take ncols) (segment start n res) = new"
    using le ln by simp
qed

lemma insert_constraint_Some:
  assumes "insert_constraint r n N c e = Some e'"
  shows "rows_kept r e e'" "holds_constraint r n N c e'" "is_mat n N (A_mat c)"
    "length (y_ref_root c) = n" "length (weights c) = n"
proof -
  from assms obtain w a y where
    w: "set_segment r n (effective_weights c) (eq_W_row e) = Some w"
    and a: "set_block r n N (A_mat c) (eq_A e) = Some a"
    and y: "set_segment r n (y_ref_root c) (eq_y_ref e) = Some y"
    and e': "e' = \<lparr> eq_A = a, eq_y_ref = y, eq_W_row = w \<rparr>"
    by (auto simp: insert_constraint_def split: option.splits)
  show "rows_kept r e e'"
    using set_segment_Some(1,2) [OF w] set_segment_Some(1,2) [OF y] set_block_Some(1,2) [OF a]
    by (simp add: rows_kept_def e')
  show "holds_constraint r n N c e'"
    using set_segment_Some(3) [OF w] set_segment_Some(3) [OF y] set_block_Some(3) [OF a]
    by (simp add: holds_constraint_def e')
  show "is_mat n N (A_mat c)" using set_block_Some(4) [OF a] .
  show "length (y_ref_root c) = n" using set_segment_Some(4) [OF y] .
  show "length (weights c) = n" using set_segment_Some(4) [OF w]
    by (simp add: effective_weights_def)
qed

lemma rows_kept_refl [simp]: "rows_kept r e e"
  by (simp add: rows_kept_def)

lemma take_eq_le: "take r xs = take r ys \<Longrightarrow> r' \<le> r \<Longrightarrow> take r' xs = take r' ys"
  by (metis min.absorb1 take_take)

lemma rows_kept_trans:
  "rows_kept r e e1 \<Longrightarrow> rows_kept r1 e1 e2 \<Longrightarrow> r \<le> r1 \<Longrightarrow> rows_kept r e e2"
  unfolding rows_kept_def by (metis take_eq_le)

lemma segment_eq_take:
  "take r xs = take r ys \<Longrightarrow> start + n \<le> r \<Longrightarrow> segment start n xs = segment start n ys"
  using segment_take [of start n r xs] segment_take [of start n r ys] by simp

lemma rows_kept_holds:
  assumes "rows_kept r e e'" and "start + n \<le> r" and "holds_constraint start n N c e"
  shows "holds_constraint start n N c e'"
proof -
  from assms(1) have "take r (eq_W_row e') = take r (eq_W_row e)"
    "take r (eq_y_ref e') = take r (eq_y_ref e)" "take r (eq_A e') = take r (eq_A e)"
    by (simp_all add: rows_kept_def)
  from this [THEN segment_eq_take, OF assms(2)] assms(3) show ?thesis
    by (simp add: holds_constraint_def)
qed

lemma update_constraint_None:
  assumes "update_constraint svd n1 n2 tfs ptr r s e = (None, s', e')"
  shows "ptr < length (heap s)"
    "\<exists>jm'. evaluate_constraint svd n1 n2 tfs (joint_index_map s) (jac_map s) (heap s ! ptr)
              = (None, jm', heap s' ! ptr)
          \<and> s' = s\<lparr> jac_map := jm', heap := (heap s)[ptr := heap s' ! ptr] \<rparr>"
    "insert_constraint r (no_variables (heap s ! ptr)) (no_robot_joints s) (heap s' ! ptr) e = Some e'"
proof -
  from assms show p: "ptr < length (heap s)"
    by (auto simp: update_constraint_def split: if_splits)
  obtain err jm c where ev: "evaluate_constraint svd n1 n2 tfs (joint_index_map s) (jac_map s) (heap s ! ptr)
              = (err, jm, c)"
    by (metis prod_cases3)
  from assms p ev have err: "err = None"
    by (auto simp: update_constraint_def split: option.splits)
  from assms p ev err have s': "s' = s\<lparr> jac_map := jm, heap := (heap s)[ptr := c] \<rparr>"
    and ins: "insert_constraint r (no_variables (heap s ! ptr)) (no_robot_joints s) c e = Some e'"
    by (auto simp: update_constraint_def split: option.splits)
  from s' p have c: "heap s' ! ptr = c" by simp
  from ev err s' c show "\<exists>jm'. evaluate_constraint svd n1 n2 tfs (joint_index_map s) (jac_map s) (heap s ! ptr)
              = (None, jm', heap s' ! ptr)
          \<and> s' = s\<lparr> jac_map := jm', heap := (heap s)[ptr := heap s' ! ptr] \<rparr>"
    by auto
  from ins c show "insert_constraint r (no_variables (heap s ! ptr)) (no_robot_joints s) (heap s' ! ptr) e = Some e'"
    by simp
qed


lemma jnt_constraint_fields:
  assumes "jnt_constraint i jns jim c = (r, c')"
  shows "config c' = config c \<and> no_variables c' = no_variables c \<and> weights c' = weights c
       \<and> activation c' = activation c \<and> last_ref_input c' = last_ref_input c
       \<and> constraint_timed_out c' = constraint_timed_out c \<and> y_ref c' = y_ref c"
  using assms
  by (induction i jns jim c rule: jnt_constraint.induct) (auto split: option.splits if_splits)

lemma evaluate_constraint_None:
  assumes "evaluate_constraint svd n1 n2 tfs jim jm c = (None, jm', c')"
  shows "jac_lookup jm' = jac_lookup jm" "no_variables c' = no_variables c"
    "config c' = config c" "weights c' = weights c" "activation c' = activation c"
    "last_ref_input c' = last_ref_input c" "time c' = n2"
    "constraint_timed_out c' =
       (if timeout (config c) > 0 \<and> toSeconds (n1 - last_ref_input c) > timeout (config c)
        then 1 else 0)"
    "length (y_ref c') = length (y_ref c)"
proof -
  let ?c1 = "check_timeout n1 c"
  have c1: "config ?c1 = config c" "no_variables ?c1 = no_variables c" "weights ?c1 = weights c"
    "activation ?c1 = activation c" "last_ref_input ?c1 = last_ref_input c" "y_ref ?c1 = y_ref c"
    "constraint_timed_out ?c1 =
       (if timeout (config c) > 0 \<and> toSeconds (n1 - last_ref_input c) > timeout (config c)
        then 1 else 0)"
    by (simp_all add: check_timeout_def Let_def)
  have "\<exists>c2. c' = zero_reference (c2\<lparr> time := n2 \<rparr>) \<and> jac_lookup jm' = jac_lookup jm
       \<and> config c2 = config c \<and> no_variables c2 = no_variables c \<and> weights c2 = weights c
       \<and> activation c2 = activation c \<and> last_ref_input c2 = last_ref_input c
       \<and> constraint_timed_out c2 = constraint_timed_out ?c1 \<and> y_ref c2 = y_ref c"
  proof (cases "ctype (config c) = cart")
    case True
    with assms obtain c2 where cc: "cart_constraint svd tfs jm ?c1 = Inr (jm', c2)"
      and c': "c' = zero_reference (c2\<lparr> time := n2 \<rparr>)"
      by (auto simp: evaluate_constraint_def Let_def c1 split: sum.splits)
    from cart_constraint_Inr [OF cc] c' c1 show ?thesis by auto
  next
    case False
    with assms obtain c2 where jc: "jnt_constraint 0 (joint_names (config c)) jim ?c1 = (None, c2)"
      and c': "c' = zero_reference (c2\<lparr> time := n2 \<rparr>)" and jm': "jm' = jm"
      by (auto simp: evaluate_constraint_def Let_def c1 split: prod.splits option.splits)
    from jnt_constraint_fields [OF jc] c' jm' c1 show ?thesis by auto
  qed
  then obtain c2 where c2: "c' = zero_reference (c2\<lparr> time := n2 \<rparr>)" "jac_lookup jm' = jac_lookup jm"
       "config c2 = config c" "no_variables c2 = no_variables c" "weights c2 = weights c"
       "activation c2 = activation c" "last_ref_input c2 = last_ref_input c"
       "constraint_timed_out c2 = constraint_timed_out ?c1" "y_ref c2 = y_ref c"
    by blast
  show "jac_lookup jm' = jac_lookup jm" by fact
  show "no_variables c' = no_variables c" "config c' = config c" "weights c' = weights c"
    "activation c' = activation c" "last_ref_input c' = last_ref_input c" "time c' = n2"
    "length (y_ref c') = length (y_ref c)"
    using c2 by (simp_all add: zero_reference_def zero_vec_def)
  show "constraint_timed_out c' =
       (if timeout (config c) > 0 \<and> toSeconds (n1 - last_ref_input c) > timeout (config c)
        then 1 else 0)"
    using c2 c1(7) by (simp add: zero_reference_def)
qed

lemma update_constraint_frame:
  assumes "update_constraint svd n1 n2 tfs ptr r s e = (None, s', e')"
  shows "same_config s s'" "\<forall>q. q \<noteq> ptr \<longrightarrow> heap s' ! q = heap s ! q"
proof -
  from update_constraint_None(2) [OF assms] obtain jm' where
    ev: "evaluate_constraint svd n1 n2 tfs (joint_index_map s) (jac_map s) (heap s ! ptr)
              = (None, jm', heap s' ! ptr)"
    and s': "s' = s\<lparr> jac_map := jm', heap := (heap s)[ptr := heap s' ! ptr] \<rparr>"
    by blast
  have "jac_map s' = jm'" "heap s' = (heap s)[ptr := heap s' ! ptr]"
    "s'\<lparr> jac_map := [], heap := [] \<rparr> = s\<lparr> jac_map := [], heap := [] \<rparr>"
    by (subst s', simp)+
  with evaluate_constraint_None(1) [OF ev] show "same_config s s'"
    by (simp add: same_config_def) (metis length_list_update)
  from \<open>heap s' = (heap s)[ptr := heap s' ! ptr]\<close>
  show "\<forall>q. q \<noteq> ptr \<longrightarrow> heap s' ! q = heap s ! q"
    by (metis nth_list_update_neq)
qed


lemma update_constraints_None:
  assumes "update_constraints svd nw tfs i ptrs r s e = (None, s', e')" and "distinct ptrs"
  shows "same_config s s'
     \<and> (\<forall>q. q \<notin> set ptrs \<longrightarrow> heap s' ! q = heap s ! q)
     \<and> rows_kept r e e'
     \<and> (\<forall>k < length ptrs.
           ptrs ! k < length (heap s)
         \<and> (\<exists>jm jm'. jac_lookup jm = jac_lookup (jac_map s)
               \<and> evaluate_constraint svd (nw (i + k) 0) (nw (i + k) 1) tfs (joint_index_map s) jm
                    (heap s ! (ptrs ! k)) = (None, jm', heap s' ! (ptrs ! k)))
         \<and> holds_constraint
              (r + sum_list (map (\<lambda>q. no_variables (heap s ! q)) (take k ptrs)))
              (no_variables (heap s ! (ptrs ! k))) (no_robot_joints s) (heap s' ! (ptrs ! k)) e'
         \<and> is_mat (no_variables (heap s ! (ptrs ! k))) (no_robot_joints s)
              (A_mat (heap s' ! (ptrs ! k)))
         \<and> length (y_ref_root (heap s' ! (ptrs ! k))) = no_variables (heap s ! (ptrs ! k))
         \<and> length (weights (heap s' ! (ptrs ! k))) = no_variables (heap s ! (ptrs ! k)))"
  using assms
proof (induction ptrs arbitrary: i r s e)
  case Nil
  then show ?case by simp
next
  case (Cons ptr ptrs)
  let ?nv = "no_variables (heap s ! ptr)"
  obtain err s1 e1 where step: "update_constraint svd (nw i 0) (nw i 1) tfs ptr r s e = (err, s1, e1)"
    by (metis prod_cases3)
  with Cons.prems(1) have err: "err = None"
    by (cases err) simp_all
  with Cons.prems(1) step
  have rest: "update_constraints svd nw tfs (Suc i) ptrs (r + ?nv) s1 e1 = (None, s', e')"
    by simp
  note step = step [unfolded err]
  from Cons.prems(2) have dist: "distinct ptrs" and notin: "ptr \<notin> set ptrs" by simp_all
  note IH = Cons.IH [OF rest dist]
  note p = update_constraint_None(1) [OF step]
  from update_constraint_None(2) [OF step] obtain jm1 where
    ev: "evaluate_constraint svd (nw i 0) (nw i 1) tfs (joint_index_map s) (jac_map s) (heap s ! ptr)
           = (None, jm1, heap s1 ! ptr)"
    by blast
  note ins = insert_constraint_Some [OF update_constraint_None(3) [OF step]]
  note fr = update_constraint_frame [OF step]
  note f1 = same_config_fields [OF fr(1)]
  from IH have sc: "same_config s1 s'" and keep: "\<forall>q. q \<notin> set ptrs \<longrightarrow> heap s' ! q = heap s1 ! q"
    and rk: "rows_kept (r + ?nv) e1 e'"
    by simp_all
  have old: "heap s1 ! q = heap s ! q" if "q \<in> set ptrs" for q
    using fr(2) that notin by auto
  have A: "same_config s s'" using fr(1) sc by (rule same_config_trans)
  have B: "\<forall>q. q \<notin> set (ptr # ptrs) \<longrightarrow> heap s' ! q = heap s ! q"
    using keep fr(2) by simp
  have C: "rows_kept r e e'" using ins(1) rk by (rule rows_kept_trans) simp
  have D: "(ptr # ptrs) ! k < length (heap s)
         \<and> (\<exists>jm jm'. jac_lookup jm = jac_lookup (jac_map s)
               \<and> evaluate_constraint svd (nw (i + k) 0) (nw (i + k) 1) tfs (joint_index_map s) jm
                    (heap s ! ((ptr # ptrs) ! k)) = (None, jm', heap s' ! ((ptr # ptrs) ! k)))
         \<and> holds_constraint
              (r + sum_list (map (\<lambda>q. no_variables (heap s ! q)) (take k (ptr # ptrs))))
              (no_variables (heap s ! ((ptr # ptrs) ! k))) (no_robot_joints s)
              (heap s' ! ((ptr # ptrs) ! k)) e'
         \<and> is_mat (no_variables (heap s ! ((ptr # ptrs) ! k))) (no_robot_joints s)
              (A_mat (heap s' ! ((ptr # ptrs) ! k)))
         \<and> length (y_ref_root (heap s' ! ((ptr # ptrs) ! k))) = no_variables (heap s ! ((ptr # ptrs) ! k))
         \<and> length (weights (heap s' ! ((ptr # ptrs) ! k))) = no_variables (heap s ! ((ptr # ptrs) ! k))"
    if k: "k < length (ptr # ptrs)" for k
  proof (cases k)
    case 0
    from keep notin have same: "heap s' ! ptr = heap s1 ! ptr" by simp
    have "holds_constraint r ?nv (no_robot_joints s) (heap s1 ! ptr) e'"
      using rk _ ins(2) by (rule rows_kept_holds) simp
    with 0 p ev same ins(3,4,5) show ?thesis by auto
  next
    case (Suc k')
    with k have k': "k' < length ptrs" by simp
    then have mem: "ptrs ! k' \<in> set ptrs" by simp
    from IH k' have
      a: "ptrs ! k' < length (heap s1)"
      and b: "\<exists>jm jm'. jac_lookup jm = jac_lookup (jac_map s1)
               \<and> evaluate_constraint svd (nw (Suc i + k') 0) (nw (Suc i + k') 1) tfs (joint_index_map s1) jm
                    (heap s1 ! (ptrs ! k')) = (None, jm', heap s' ! (ptrs ! k'))"
      and c: "holds_constraint
              (r + ?nv + sum_list (map (\<lambda>q. no_variables (heap s1 ! q)) (take k' ptrs)))
              (no_variables (heap s1 ! (ptrs ! k'))) (no_robot_joints s1) (heap s' ! (ptrs ! k')) e'"
      and d: "is_mat (no_variables (heap s1 ! (ptrs ! k'))) (no_robot_joints s1)
              (A_mat (heap s' ! (ptrs ! k')))"
      and d2: "length (y_ref_root (heap s' ! (ptrs ! k'))) = no_variables (heap s1 ! (ptrs ! k'))"
        "length (weights (heap s' ! (ptrs ! k'))) = no_variables (heap s1 ! (ptrs ! k'))"
      by simp_all
    have sum: "map (\<lambda>q. no_variables (heap s1 ! q)) (take k' ptrs)
                 = map (\<lambda>q. no_variables (heap s ! q)) (take k' ptrs)"
      by (rule map_cong [OF refl]) (auto dest: in_set_takeD simp: old)
    from a b c d d2 show ?thesis
      by (simp add: Suc f1 old [OF mem] sum add.assoc)
  qed
  from A B C D show ?case by blast
qed


lemma update_constraints_level:
  assumes "update_constraints svd (now prio) tfs 0 (constraint_vector s ! prio) 0 s e = (None, s', e')"
    and "distinct (constraint_vector s ! prio)" and "k < length (constraint_vector s ! prio)"
  shows "constraint_assembled svd now tfs s s' e' prio k"
proof -
  from update_constraints_None [OF assms(1,2)] assms(3) same_config_fields(9) [of s s']
  show ?thesis
    by (simp add: constraint_assembled_def Let_def row_offset_def)
qed

lemma constraint_assembled_later:
  assumes "constraint_assembled svd now tfs s s1 e prio k" and "same_config s1 s'"
    and "heap s' ! (constraint_vector s ! prio ! k) = heap s1 ! (constraint_vector s ! prio ! k)"
  shows "constraint_assembled svd now tfs s s' e prio k"
  using assms same_config_fields(9) [OF assms(2)]
  by (simp add: constraint_assembled_def Let_def)

lemma constraint_assembled_earlier:
  assumes "constraint_assembled svd now tfs s1 s' e prio k" and "same_config s s1"
    and "\<forall>q \<in> set (constraint_vector s ! prio). heap s1 ! q = heap s ! q"
    and "k < length (constraint_vector s ! prio)"
  shows "constraint_assembled svd now tfs s s' e prio k"
proof -
  note f = same_config_fields [OF assms(2)]
  from assms(4) have mem: "constraint_vector s ! prio ! k \<in> set (constraint_vector s ! prio)"
    by simp
  have "map (\<lambda>q. no_variables (heap s1 ! q)) (take k (constraint_vector s ! prio))
          = map (\<lambda>q. no_variables (heap s ! q)) (take k (constraint_vector s ! prio))"
    using assms(3) by (intro map_cong [OF refl]) (auto dest: in_set_takeD)
  then have "row_offset s1 prio k = row_offset s prio k"
    unfolding row_offset_def f(3) by (rule arg_cong)
  with assms(1) assms(3) [rule_format, OF mem] show ?thesis
    by (simp add: constraint_assembled_def Let_def f)
qed

lemma update_prios_other:
  assumes "update_prios svd now tfs prios s eqs = (None, s', eqs')" and "p \<notin> set prios"
  shows "eqs' ! p = eqs ! p"
  using assms
proof (induction prios arbitrary: s eqs)
  case Nil
  then show ?case by simp
next
  case (Cons prio prios)
  obtain err s1 e1 where inner: "update_constraints svd (now prio) tfs 0 (constraint_vector s ! prio) 0 s
      (les_resize (n_constraints_per_prio s ! prio) (no_robot_joints s) (eqs ! prio)) = (err, s1, e1)"
    by (metis prod_cases3)
  with Cons.prems(1) have "err = None"
    by (cases err) (auto simp: Let_def split: if_splits)
  with Cons.prems(1) inner
  have "update_prios svd now tfs prios s1 (eqs[prio := e1]) = (None, s', eqs')"
    by (auto simp: Let_def split: if_splits)
  from Cons.IH [OF this] Cons.prems(2) show ?case by simp
qed

lemma update_prios_None:
  assumes "update_prios svd now tfs prios s eqs = (None, s', eqs')"
    and "distinct (concat (map (\<lambda>p. constraint_vector s ! p) prios))" and "distinct prios"
  shows "same_config s s'
     \<and> length eqs' = length eqs
     \<and> (\<forall>q. q \<notin> set (concat (map (\<lambda>p. constraint_vector s ! p) prios)) \<longrightarrow> heap s' ! q = heap s ! q)
     \<and> (\<forall>prio \<in> set prios. \<forall>k < length (constraint_vector s ! prio).
           constraint_assembled svd now tfs s s' (eqs' ! prio) prio k)"
  using assms
proof (induction prios arbitrary: s eqs)
  case Nil
  then show ?case by simp
next
  case (Cons prio prios)
  let ?ptrs = "constraint_vector s ! prio"
  let ?e0 = "les_resize (n_constraints_per_prio s ! prio) (no_robot_joints s) (eqs ! prio)"
  from Cons.prems(1) have guard: "prio < length eqs"
    by (auto split: if_splits)
  obtain err s1 e1 where inner: "update_constraints svd (now prio) tfs 0 ?ptrs 0 s ?e0 = (err, s1, e1)"
    by (metis prod_cases3)
  with Cons.prems(1) have err: "err = None"
    by (cases err) (auto simp: Let_def split: if_splits)
  with Cons.prems(1) inner
  have rest: "update_prios svd now tfs prios s1 (eqs[prio := e1]) = (None, s', eqs')"
    by (auto simp: Let_def split: if_splits)
  note inner = inner [unfolded err]
  from Cons.prems(2) have d0: "distinct ?ptrs"
    and d1: "distinct (concat (map (\<lambda>p. constraint_vector s ! p) prios))"
    and disj: "set ?ptrs \<inter> set (concat (map (\<lambda>p. constraint_vector s ! p) prios)) = {}"
    by auto
  from Cons.prems(3) have np: "prio \<notin> set prios" and dp: "distinct prios" by simp_all
  from update_constraints_None [OF inner d0]
  have sc1: "same_config s s1" and keep1: "\<forall>q. q \<notin> set ?ptrs \<longrightarrow> heap s1 ! q = heap s ! q"
    by simp_all
  note f1 = same_config_fields [OF sc1]
  from d1 have d1': "distinct (concat (map (\<lambda>p. constraint_vector s1 ! p) prios))"
    by (simp add: f1)
  note IH = Cons.IH [OF rest d1' dp]
  from IH have sc2: "same_config s1 s'" and len: "length eqs' = length eqs"
    and keep2: "\<forall>q. q \<notin> set (concat (map (\<lambda>p. constraint_vector s ! p) prios)) \<longrightarrow> heap s' ! q = heap s1 ! q"
    and later: "\<forall>p \<in> set prios. \<forall>k < length (constraint_vector s ! p).
           constraint_assembled svd now tfs s1 s' (eqs' ! p) p k"
    by (simp_all add: f1)
  have A: "same_config s s'" using sc1 sc2 by (rule same_config_trans)
  have C: "\<forall>q. q \<notin> set (concat (map (\<lambda>p. constraint_vector s ! p) (prio # prios))) \<longrightarrow> heap s' ! q = heap s ! q"
    using keep1 keep2 by simp
  have head: "eqs' ! prio = e1"
    using update_prios_other [OF rest np] guard by simp
  have D: "constraint_assembled svd now tfs s s' (eqs' ! p) p k"
    if p: "p \<in> set (prio # prios)" and k: "k < length (constraint_vector s ! p)" for p k
  proof (cases "p = prio")
    case True
    have mem: "?ptrs ! k \<in> set ?ptrs" using k True by simp
    with disj have "?ptrs ! k \<notin> set (concat (map (\<lambda>p. constraint_vector s ! p) prios))"
      by blast
    with keep2 have same: "heap s' ! (?ptrs ! k) = heap s1 ! (?ptrs ! k)" by simp
    from k True have k': "k < length ?ptrs" by simp
    from update_constraints_level [where now = now and prio = prio, OF inner d0 k'] sc2 same
    have "constraint_assembled svd now tfs s s' e1 prio k"
      by (rule constraint_assembled_later)
    with True head show ?thesis by simp
  next
    case False
    with p have pin: "p \<in> set prios" by simp
    with later k have la: "constraint_assembled svd now tfs s1 s' (eqs' ! p) p k" by simp
    have "\<forall>q \<in> set (constraint_vector s ! p). heap s1 ! q = heap s ! q"
    proof
      fix q assume "q \<in> set (constraint_vector s ! p)"
      with pin have "q \<in> set (concat (map (\<lambda>p. constraint_vector s ! p) prios))" by auto
      with disj have "q \<notin> set ?ptrs" by blast
      with keep1 show "heap s1 ! q = heap s ! q" by simp
    qed
    from constraint_assembled_earlier [OF la sc1 this k] show ?thesis .
  qed
  from A len C D show ?case by blast
qed


lemma splice_columns_frame:
  "splice_columns nm tf j jts s = (r, s1) \<Longrightarrow> s1\<lparr> jac_map := [] \<rparr> = s\<lparr> jac_map := [] \<rparr>"
proof (induction nm tf j jts s rule: splice_columns.induct)
  case (1 tf_name tf j s)
  then show ?case by simp
next
  case (2 tf_name tf j jt_name jts s)
  show ?case
  proof (cases "map_of (joint_index_map s) jt_name")
    case None
    with "2.prems" show ?thesis by simp
  next
    case (Some idx)
    obtain jm jac where mi: "map_index (zero_jacobian 0) (jac_map s) tf_name = (jm, jac)"
      by (cases "map_index (zero_jacobian 0) (jac_map s) tf_name")
    show ?thesis
    proof (cases "j < jac_columns (tf_jacobian tf) \<and> idx < jac_columns jac")
      case True
      with "2.prems" Some mi
      have "splice_columns tf_name tf (Suc j) jts
              (s\<lparr> jac_map := map_set tf_name (setColumn idx (col (tf_jacobian tf) j) jac) jm \<rparr>) = (r, s1)"
        by simp
      from "2.IH" [OF Some mi [symmetric] refl True this] show ?thesis by simp
    next
      case False
      with "2.prems" Some mi show ?thesis by auto
    qed
  qed
qed

lemma update_jacobians_frame:
  "update_jacobians tfs s = (r, s1) \<Longrightarrow> s1\<lparr> jac_map := [] \<rparr> = s\<lparr> jac_map := [] \<rparr>"
proof (induction tfs s rule: update_jacobians.induct)
  case (1 s)
  then show ?case by simp
next
  case (2 tf_name tf it s)
  obtain e s2 where sp: "splice_columns tf_name tf 0 (tf_joint_names tf) s = (e, s2)"
    by (cases "splice_columns tf_name tf 0 (tf_joint_names tf) s")
  note f = splice_columns_frame [OF sp]
  show ?case
  proof (cases e)
    case None
    with "2.prems" sp have "update_jacobians it s2 = (r, s1)" by simp
    from "2.IH" [OF sp [symmetric] None this] f show ?thesis by simp
  next
    case (Some a)
    with "2.prems" sp f show ?thesis by simp
  qed
qed

lemma update_constraints_constraint_vector:
  "update_constraints svd nw tfs i ptrs r s e = (res, s', e') \<Longrightarrow>
   constraint_vector s' = constraint_vector s"
proof (induction ptrs arbitrary: i r s e)
  case Nil
  then show ?case by simp
next
  case (Cons ptr ptrs)
  obtain err s1 e1 where step: "update_constraint svd (nw i 0) (nw i 1) tfs ptr r s e = (err, s1, e1)"
    by (metis prod_cases3)
  then have cv: "constraint_vector s1 = constraint_vector s"
    by (auto simp: update_constraint_def split: if_splits prod.splits option.splits)
  show ?case
  proof (cases err)
    case None
    with Cons.prems step
    have "update_constraints svd nw tfs (Suc i) ptrs (r + no_variables (heap s ! ptr)) s1 e1 = (res, s', e')"
      by simp
    from Cons.IH [OF this] cv show ?thesis by simp
  next
    case (Some a)
    with Cons.prems step cv show ?thesis by simp
  qed
qed

lemma update_prios_guard:
  "update_prios svd now tfs prios s eqs = (None, s', eqs') \<Longrightarrow>
   \<forall>p \<in> set prios. p < length (constraint_vector s)"
proof (induction prios arbitrary: s eqs)
  case Nil
  then show ?case by simp
next
  case (Cons prio prios)
  from Cons.prems have g: "prio < length (constraint_vector s)"
    by (auto split: if_splits)
  obtain err s1 e1 where inner: "update_constraints svd (now prio) tfs 0 (constraint_vector s ! prio) 0 s
      (les_resize (n_constraints_per_prio s ! prio) (no_robot_joints s) (eqs ! prio)) = (err, s1, e1)"
    by (metis prod_cases3)
  with Cons.prems have "err = None"
    by (cases err) (auto simp: Let_def split: if_splits)
  with Cons.prems inner
  have "update_prios svd now tfs prios s1 (eqs[prio := e1]) = (None, s', eqs')"
    by (auto simp: Let_def split: if_splits)
  from Cons.IH [OF this] update_constraints_constraint_vector [OF inner] g show ?case by simp
qed

lemma map_nth_upt_take: "n \<le> length xs \<Longrightarrow> map ((!) xs) [0..<n] = take n xs"
  by (simp add: list_eq_iff_nth_eq)

lemma distinct_concat_take: "distinct (concat xss) \<Longrightarrow> distinct (concat (take n xss))"
proof -
  assume "distinct (concat xss)"
  then have "distinct (concat (take n xss @ drop n xss))" by simp
  then show ?thesis by (simp only: concat_append distinct_append)
qed

lemma prepareEqSystem_None:
  assumes "prepareEqSystem svd now tfs s eqs = (None, s', eqs')"
    and "distinct (concat (constraint_vector s))"
    and "prio < n_prios s" and "k < length (constraint_vector s ! prio)"
  shows "constraint_assembled svd now tfs s s' (eqs' ! prio) prio k"
proof -
  obtain r s1 where uj: "update_jacobians tfs s = (r, s1)"
    by (cases "update_jacobians tfs s")
  with assms(1) have r: "r = None"
    by (cases r) (auto simp: prepareEqSystem_def split: if_splits)
  let ?eqs1 = "if length eqs \<noteq> n_prios s1 then vector_resize (n_prios s1) les_empty eqs else eqs"
  from assms(1) uj r have up: "update_prios svd now tfs [0..<n_prios s1] s1 ?eqs1 = (None, s', eqs')"
    by (auto simp: prepareEqSystem_def split: if_splits)
  from update_jacobians_frame [OF uj]
  have f: "heap s1 = heap s" "constraint_vector s1 = constraint_vector s" "n_prios s1 = n_prios s"
    "joint_index_map s1 = joint_index_map s" "no_robot_joints s1 = no_robot_joints s"
    by (cases s; cases s1; simp)+
  from update_prios_guard [OF up] have "\<forall>p < n_prios s. p < length (constraint_vector s)"
    by (simp add: f)
  then have le: "n_prios s \<le> length (constraint_vector s)"
    by (metis le_less_linear less_irrefl)
  have "map (\<lambda>p. constraint_vector s1 ! p) [0..<n_prios s1] = take (n_prios s) (constraint_vector s)"
    using map_nth_upt_take [OF le] by (simp add: f)
  with assms(2) have d: "distinct (concat (map (\<lambda>p. constraint_vector s1 ! p) [0..<n_prios s1]))"
    by (simp add: distinct_concat_take)
  from update_prios_None [OF up d] assms(3,4)
  have "constraint_assembled svd now tfs s1 s' (eqs' ! prio) prio k"
    by (simp add: f)
  then show ?thesis
    by (simp add: constraint_assembled_def Let_def row_offset_def f)
qed


subsection \<open>The effective weight\<close>

lemmas assemble_eval =
  prepareEqSystem_def update_constraint_def evaluate_constraint_def check_timeout_def
  insert_constraint_def set_segment_def set_block_def is_mat_def effective_weights_def
  zero_reference_def les_resize_def les_empty_def toSeconds_def

lemma two_joint_solver_eval:
  "two_joint_solver t =
     \<lparr> configured = True, constraint_vector = [[0]], constraint_map = [(''c'', 0)],
       joint_index_map = [(''j1'', 0), (''j2'', 1)], jac_map = [], no_robot_joints = 2,
       n_constraints_per_prio = [1], n_prios = 1, task_frame_ids = [],
       heap = [ExtendedConstraint_new ((joint_config ''c'' 0 [''j2''])\<lparr> timeout := t \<rparr>)
                 [''j1'', ''j2'']] \<rparr>"
  by (simp add: two_joint_solver_def configure_eval joint_config_def)

text \<open>
  C3. In every assembled cycle, for every constraint, the rows of the weight vector of its
  priority that belong to it hold the configured weights times the activation times 0 or 1:
  0 when the timeout is positive and the time since the last reference update exceeds it, 1
  otherwise. So a timed-out constraint has weight 0 whatever its weights and activation,
  and a constraint whose timeout is not positive is never marked as timed out.
\<close>

theorem effective_weight:
  assumes "prepareEqSystem svd now tfs s eqs = (None, s', eqs')"
    and "distinct (concat (constraint_vector s))"
    and "prio < n_prios s" and "k < length (constraint_vector s ! prio)"
    and "c = heap s ! (constraint_vector s ! prio ! k)"
    and "c' = heap s' ! (constraint_vector s ! prio ! k)"
    and "elapsed = toSeconds (now prio k 0 - last_ref_input c)"
  shows "segment (row_offset s prio k) (no_variables c) (eq_W_row (eqs' ! prio))
           = map (\<lambda>w. w * activation c
                        * (if 0 < timeout (config c) \<and> timeout (config c) < elapsed then 0 else 1))
               (weights c)
       \<and> length (weights c) = no_variables c
       \<and> (0 < timeout (config c) \<and> timeout (config c) < elapsed \<longrightarrow>
            constraint_timed_out c' = 1
            \<and> segment (row_offset s prio k) (no_variables c) (eq_W_row (eqs' ! prio))
                = zero_vec (no_variables c))
       \<and> (timeout (config c) \<le> 0 \<longrightarrow> constraint_timed_out c' = 0)"
proof -
  from prepareEqSystem_None [OF assms(1-4)] assms(5,6) obtain jm jm' where
    ev: "evaluate_constraint svd (now prio k 0) (now prio k 1) tfs (joint_index_map s) jm c
           = (None, jm', c')"
    and h: "holds_constraint (row_offset s prio k) (no_variables c) (no_robot_joints s) c' (eqs' ! prio)"
    and l: "length (weights c') = no_variables c"
    by (auto simp: constraint_assembled_def Let_def)
  note f = evaluate_constraint_None [OF ev]
  from h have w: "segment (row_offset s prio k) (no_variables c) (eq_W_row (eqs' ! prio))
                    = effective_weights c'"
    by (simp add: holds_constraint_def)
  have 1: "segment (row_offset s prio k) (no_variables c) (eq_W_row (eqs' ! prio))
           = map (\<lambda>w. w * activation c
                        * (if 0 < timeout (config c) \<and> timeout (config c) < elapsed then 0 else 1))
               (weights c)"
    unfolding w effective_weights_def f assms(7) by simp
  have 2: "length (weights c) = no_variables c" using l f(4) by simp
  have 3: "constraint_timed_out c' = 1
            \<and> segment (row_offset s prio k) (no_variables c) (eq_W_row (eqs' ! prio))
                = zero_vec (no_variables c)"
    if "0 < timeout (config c) \<and> timeout (config c) < elapsed"
    using that 1 2 f(8) assms(7) by (simp add: zero_vec_def map_replicate_const)
  have 4: "constraint_timed_out c' = 0" if "timeout (config c) \<le> 0"
    using that f(8) by simp
  from 1 2 3 4 show ?thesis by blast
qed

theorem effective_weight_witness:
  "\<exists>s' eqs'.
     prepareEqSystem no_svd (\<lambda>prio i k. 2000000) []
       (write_reference 0 [1 / 2] 1 0 (two_joint_solver 1)) [] = (None, s', eqs')
     \<and> segment 0 1 (eq_W_row (eqs' ! 0)) = [0]
     \<and> constraint_timed_out (heap s' ! 0) = 1"
proof -
  let ?s = "write_reference 0 [1 / 2] 1 0 (two_joint_solver 1)"
  let ?now = "\<lambda>prio i k :: nat. 2000000 :: int"
  have "fst (prepareEqSystem no_svd ?now [] ?s []) = None"
    by (simp add: two_joint_solver_eval write_reference_def assemble_eval configure_eval joint_config_def)
  then obtain s' eqs' where p: "prepareEqSystem no_svd ?now [] ?s [] = (None, s', eqs')"
    by (metis prod.collapse)
  have c: "heap ?s ! (constraint_vector ?s ! 0 ! 0)
             = (ExtendedConstraint_new ((joint_config ''c'' 0 [''j2''])\<lparr> timeout := 1 \<rparr>) [''j1'', ''j2''])
                 \<lparr> y_ref := [1 / 2], activation := 1, last_ref_input := 0 \<rparr>"
    by (simp add: two_joint_solver_eval write_reference_def)
  have d: "distinct (concat (constraint_vector ?s))" "0 < n_prios ?s"
    "0 < length (constraint_vector ?s ! 0)" "row_offset ?s 0 0 = 0"
    "constraint_vector ?s ! 0 ! 0 = 0"
    by (simp_all add: two_joint_solver_eval write_reference_def row_offset_def)
  from effective_weight [OF p d(1,2,3) refl refl refl] c d(4,5) p show ?thesis
    by (simp add: ExtendedConstraint_new_def joint_config_def toSeconds_def zero_vec_def)
qed

subsection \<open>Zero activation\<close>

lemma evaluate_constraint_inactive:
  assumes "evaluate_constraint svd n1 n2 tfs jim jm c = (None, jm', c')" and "activation c = 0"
  shows "y_ref c' = zero_vec (length (y_ref c))" "y_ref_root c' = zero_vec (length (y_ref_root c'))"
proof -
  let ?c1 = "check_timeout n1 c"
  have c1: "config ?c1 = config c" "activation ?c1 = activation c" "y_ref ?c1 = y_ref c"
    by (simp_all add: check_timeout_def Let_def)
  have "\<exists>c2. c' = zero_reference (c2\<lparr> time := n2 \<rparr>) \<and> activation c2 = 0 \<and> y_ref c2 = y_ref c"
  proof (cases "ctype (config c) = cart")
    case True
    with assms obtain c2 where cc: "cart_constraint svd tfs jm ?c1 = Inr (jm', c2)"
      and c': "c' = zero_reference (c2\<lparr> time := n2 \<rparr>)"
      by (auto simp: evaluate_constraint_def Let_def c1 split: sum.splits)
    from cart_constraint_Inr [OF cc] c' c1 assms(2) show ?thesis by auto
  next
    case False
    with assms obtain c2 where jc: "jnt_constraint 0 (joint_names (config c)) jim ?c1 = (None, c2)"
      and c': "c' = zero_reference (c2\<lparr> time := n2 \<rparr>)"
      by (auto simp: evaluate_constraint_def Let_def c1 split: prod.splits option.splits)
    from jnt_constraint_fields [OF jc] c' c1 assms(2) show ?thesis by auto
  qed
  then obtain c2 where "c' = zero_reference (c2\<lparr> time := n2 \<rparr>)" "activation c2 = 0" "y_ref c2 = y_ref c"
    by blast
  then show "y_ref c' = zero_vec (length (y_ref c))" "y_ref_root c' = zero_vec (length (y_ref_root c'))"
    by (simp_all add: zero_reference_def zero_vec_def)
qed

text \<open>
  C4. For a constraint whose activation is zero when it is assembled, the reference rows
  written into the system of its priority are zero, and so are the raw and the root-frame
  reference value kept in the constraint, whatever reference value a caller had set.
\<close>

theorem inactive_reference_is_zero:
  assumes "prepareEqSystem svd now tfs s eqs = (None, s', eqs')"
    and "distinct (concat (constraint_vector s))"
    and "prio < n_prios s" and "k < length (constraint_vector s ! prio)"
    and "c = heap s ! (constraint_vector s ! prio ! k)"
    and "c' = heap s' ! (constraint_vector s ! prio ! k)"
    and "activation c = 0"
  shows "segment (row_offset s prio k) (no_variables c) (eq_y_ref (eqs' ! prio))
           = zero_vec (no_variables c)
       \<and> y_ref c' = zero_vec (length (y_ref c))
       \<and> y_ref_root c' = zero_vec (no_variables c)"
proof -
  from prepareEqSystem_None [OF assms(1-4)] assms(5,6) obtain jm jm' where
    ev: "evaluate_constraint svd (now prio k 0) (now prio k 1) tfs (joint_index_map s) jm c
           = (None, jm', c')"
    and h: "holds_constraint (row_offset s prio k) (no_variables c) (no_robot_joints s) c' (eqs' ! prio)"
    and l: "length (y_ref_root c') = no_variables c"
    by (auto simp: constraint_assembled_def Let_def)
  from evaluate_constraint_inactive [OF ev assms(7)] h l show ?thesis
    by (simp add: holds_constraint_def)
qed

theorem inactive_reference_is_zero_witness:
  "\<exists>s' eqs'.
     prepareEqSystem no_svd (\<lambda>prio i k. 0) []
       (write_reference 0 [1 / 2] 0 0 (two_joint_solver 0)) [] = (None, s', eqs')
     \<and> y_ref (heap (write_reference 0 [1 / 2] 0 0 (two_joint_solver 0)) ! 0) = [1 / 2]
     \<and> segment 0 1 (eq_y_ref (eqs' ! 0)) = [0]
     \<and> y_ref (heap s' ! 0) = [0] \<and> y_ref_root (heap s' ! 0) = [0]"
proof -
  let ?s = "write_reference 0 [1 / 2] 0 0 (two_joint_solver 0)"
  let ?now = "\<lambda>prio i k :: nat. 0 :: int"
  have "fst (prepareEqSystem no_svd ?now [] ?s []) = None"
    by (simp add: two_joint_solver_eval write_reference_def assemble_eval configure_eval joint_config_def)
  then obtain s' eqs' where p: "prepareEqSystem no_svd ?now [] ?s [] = (None, s', eqs')"
    by (metis prod.collapse)
  have c: "heap ?s ! (constraint_vector ?s ! 0 ! 0)
             = (ExtendedConstraint_new ((joint_config ''c'' 0 [''j2''])\<lparr> timeout := 0 \<rparr>) [''j1'', ''j2''])
                 \<lparr> y_ref := [1 / 2], activation := 0, last_ref_input := 0 \<rparr>"
    by (simp add: two_joint_solver_eval write_reference_def)
  have d: "distinct (concat (constraint_vector ?s))" "0 < n_prios ?s"
    "0 < length (constraint_vector ?s ! 0)" "row_offset ?s 0 0 = 0"
    "constraint_vector ?s ! 0 ! 0 = 0"
    by (simp_all add: two_joint_solver_eval write_reference_def row_offset_def)
  have a: "activation (heap ?s ! (constraint_vector ?s ! 0 ! 0)) = 0"
    unfolding c by simp
  from inactive_reference_is_zero [OF p d(1,2,3) refl refl a] c d(4,5) p show ?thesis
    by (simp add: ExtendedConstraint_new_def joint_config_def zero_vec_def)
qed


subsection \<open>Joint constraints\<close>

lemma vector_resize_length [simp]: "length (vector_resize n d v) = n"
  by (simp add: vector_resize_def)

lemma les_resize_rows:
  "list_all (\<lambda>row. length row = N) (eq_A (les_resize n N e))"
proof -
  have "length row = N"
    if "row \<in> set (vector_resize n (zero_vec N) (map (vector_resize N 0) (eq_A e)))" for row
  proof -
    from that have "row \<in> set (take n (map (vector_resize N 0) (eq_A e))) \<or> row = zero_vec N"
      by (auto simp: vector_resize_def)
    then show ?thesis
    proof
      assume "row \<in> set (take n (map (vector_resize N 0) (eq_A e)))"
      then have "row \<in> set (map (vector_resize N 0) (eq_A e))" by (rule in_set_takeD)
      then show ?thesis by auto
    next
      assume "row = zero_vec N"
      then show ?thesis by (simp add: zero_vec_def)
    qed
  qed
  then show ?thesis by (simp add: les_resize_def list_all_iff)
qed

lemma set_block_rows:
  assumes "set_block start n N new old = Some res" and "list_all (\<lambda>row. length row = N) old"
  shows "list_all (\<lambda>row. length row = N) res"
proof -
  from assms(1) have m: "is_mat n N new"
    and res: "res = take start old
                 @ map2 (\<lambda>nw od. nw @ drop N od) new (take n (drop start old))
                 @ drop (start + n) old"
    by (simp_all add: set_block_def split: if_splits)
  from m have rows: "\<forall>row \<in> set new. length row = N"
    by (simp add: is_mat_def list_all_iff)
  from assms(2) have old: "\<forall>row \<in> set old. length row = N"
    by (simp add: list_all_iff)
  have mid: "length row = N"
    if "row \<in> set (map2 (\<lambda>nw od. nw @ drop N od) new (take n (drop start old)))" for row
  proof -
    from that obtain z where z: "z \<in> set (zip new (take n (drop start old)))"
      and row: "row = fst z @ drop N (snd z)"
      by (auto simp: case_prod_beta)
    from z have "fst z \<in> set new" by (metis prod.collapse set_zip_leftD)
    moreover from z have "snd z \<in> set (take n (drop start old))"
      by (metis prod.collapse set_zip_rightD)
    then have "snd z \<in> set old" by (meson in_set_dropD in_set_takeD)
    ultimately show ?thesis using rows old row by simp
  qed
  have "length row = N" if "row \<in> set res" for row
  proof -
    from that have "row \<in> set (take start old)
        \<or> row \<in> set (map2 (\<lambda>nw od. nw @ drop N od) new (take n (drop start old)))
        \<or> row \<in> set (drop (start + n) old)"
      unfolding res by (simp only: set_append Un_iff)
    then consider "row \<in> set (take start old)"
      | "row \<in> set (map2 (\<lambda>nw od. nw @ drop N od) new (take n (drop start old)))"
      | "row \<in> set (drop (start + n) old)"
      by blast
    then show ?thesis
    proof cases
      case 1
      then show ?thesis using old by (meson in_set_takeD)
    next
      case 2
      then show ?thesis by (rule mid)
    next
      case 3
      then show ?thesis using old by (meson in_set_dropD)
    qed
  qed
  then show ?thesis by (simp add: list_all_iff)
qed

lemma insert_constraint_rows:
  assumes "insert_constraint r n N c e = Some e'" and "list_all (\<lambda>row. length row = N) (eq_A e)"
  shows "list_all (\<lambda>row. length row = N) (eq_A e')"
proof -
  from assms(1) obtain a where "set_block r n N (A_mat c) (eq_A e) = Some a" "eq_A e' = a"
    by (auto simp: insert_constraint_def split: option.splits)
  with set_block_rows [OF _ assms(2)] show ?thesis by simp
qed

lemma update_constraints_rows:
  assumes "update_constraints svd nw tfs i ptrs r s e = (None, s', e')"
    and "list_all (\<lambda>row. length row = no_robot_joints s) (eq_A e)"
  shows "list_all (\<lambda>row. length row = no_robot_joints s) (eq_A e')"
  using assms
proof (induction ptrs arbitrary: i r s e)
  case Nil
  then show ?case by simp
next
  case (Cons ptr ptrs)
  obtain err s1 e1 where step: "update_constraint svd (nw i 0) (nw i 1) tfs ptr r s e = (err, s1, e1)"
    by (metis prod_cases3)
  with Cons.prems(1) have err: "err = None"
    by (cases err) simp_all
  with Cons.prems(1) step
  have rest: "update_constraints svd nw tfs (Suc i) ptrs (r + no_variables (heap s ! ptr)) s1 e1 = (None, s', e')"
    by simp
  note step = step [unfolded err]
  from same_config_fields(2) [OF update_constraint_frame(1) [OF step]]
  have n: "no_robot_joints s1 = no_robot_joints s" .
  from insert_constraint_rows [OF update_constraint_None(3) [OF step] Cons.prems(2)]
  have "list_all (\<lambda>row. length row = no_robot_joints s1) (eq_A e1)" by (simp add: n)
  from Cons.IH [OF rest this] show ?case by (simp add: n)
qed

lemma update_constraints_no_robot_joints:
  "update_constraints svd nw tfs i ptrs r s e = (res, s', e') \<Longrightarrow>
   no_robot_joints s' = no_robot_joints s"
proof (induction ptrs arbitrary: i r s e)
  case Nil
  then show ?case by simp
next
  case (Cons ptr ptrs)
  obtain err s1 e1 where step: "update_constraint svd (nw i 0) (nw i 1) tfs ptr r s e = (err, s1, e1)"
    by (metis prod_cases3)
  then have cv: "no_robot_joints s1 = no_robot_joints s"
    by (auto simp: update_constraint_def split: if_splits prod.splits option.splits)
  show ?case
  proof (cases err)
    case None
    with Cons.prems step
    have "update_constraints svd nw tfs (Suc i) ptrs (r + no_variables (heap s ! ptr)) s1 e1 = (res, s', e')"
      by simp
    from Cons.IH [OF this] cv show ?thesis by simp
  next
    case (Some a)
    with Cons.prems step cv show ?thesis by simp
  qed
qed

lemma update_prios_rows:
  assumes "update_prios svd now tfs prios s eqs = (None, s', eqs')" and "distinct prios"
  shows "\<forall>p \<in> set prios. list_all (\<lambda>row. length row = no_robot_joints s) (eq_A (eqs' ! p))"
  using assms
proof (induction prios arbitrary: s eqs)
  case Nil
  then show ?case by simp
next
  case (Cons prio prios)
  let ?e0 = "les_resize (n_constraints_per_prio s ! prio) (no_robot_joints s) (eqs ! prio)"
  from Cons.prems(1) have guard: "prio < length eqs"
    by (auto split: if_splits)
  obtain err s1 e1 where inner: "update_constraints svd (now prio) tfs 0 (constraint_vector s ! prio) 0 s ?e0
       = (err, s1, e1)"
    by (metis prod_cases3)
  with Cons.prems(1) have err: "err = None"
    by (cases err) (auto simp: Let_def split: if_splits)
  with Cons.prems(1) inner
  have rest: "update_prios svd now tfs prios s1 (eqs[prio := e1]) = (None, s', eqs')"
    by (auto simp: Let_def split: if_splits)
  note inner = inner [unfolded err]
  from Cons.prems(2) have np: "prio \<notin> set prios" and dp: "distinct prios" by simp_all
  note n = update_constraints_no_robot_joints [OF inner]
  have "list_all (\<lambda>row. length row = no_robot_joints s) (eq_A e1)"
    using update_constraints_rows [OF inner les_resize_rows] .
  moreover have "eqs' ! prio = e1"
    using update_prios_other [OF rest np] guard by simp
  ultimately show ?case using Cons.IH [OF rest dp] by (simp add: n)
qed

lemma prepareEqSystem_rows:
  assumes "prepareEqSystem svd now tfs s eqs = (None, s', eqs')" and "prio < n_prios s"
  shows "list_all (\<lambda>row. length row = no_robot_joints s) (eq_A (eqs' ! prio))"
proof -
  obtain r s1 where uj: "update_jacobians tfs s = (r, s1)"
    by (cases "update_jacobians tfs s")
  with assms(1) have r: "r = None"
    by (cases r) (auto simp: prepareEqSystem_def split: if_splits)
  let ?eqs1 = "if length eqs \<noteq> n_prios s1 then vector_resize (n_prios s1) les_empty eqs else eqs"
  from assms(1) uj r have up: "update_prios svd now tfs [0..<n_prios s1] s1 ?eqs1 = (None, s', eqs')"
    by (auto simp: prepareEqSystem_def split: if_splits)
  from update_jacobians_frame [OF uj]
  have f: "n_prios s1 = n_prios s" "no_robot_joints s1 = no_robot_joints s"
    by (cases s; cases s1; simp)+
  from update_prios_rows [OF up] assms(2) show ?thesis by (simp add: f)
qed

lemma segment_rows:
  assumes "list_all (\<lambda>row. length row = N) xs"
  shows "map (take N) (segment a b xs) = segment a b xs"
proof -
  have "\<forall>row \<in> set (segment a b xs). length row = N"
    using assms unfolding segment_def list_all_iff
    by (meson in_set_dropD in_set_takeD)
  then show ?thesis by (simp add: map_idI)
qed


lemma jnt_constraint_None:
  assumes "jnt_constraint i jns jim c = (None, c2)"
  shows "length (A_mat c2) = length (A_mat c)
     \<and> (\<forall>m < length jns. \<exists>idx. map_of jim (jns ! m) = Some idx \<and> i + m < length (A_mat c)
            \<and> idx < length (A_mat c ! (i + m))
            \<and> A_mat c2 ! (i + m) = (A_mat c ! (i + m))[idx := 1])
     \<and> (\<forall>r. r < i \<longrightarrow> A_mat c2 ! r = A_mat c ! r)
     \<and> y_ref_root c2 = (if jns = [] then y_ref_root c else y_ref c)
     \<and> y_ref c2 = y_ref c"
  using assms
proof (induction jns arbitrary: i c)
  case Nil
  then show ?case by simp
next
  case (Cons jn jns)
  from Cons.prems obtain idx where idx: "map_of jim jn = Some idx"
    by (cases "map_of jim jn") simp_all
  let ?A = "A_mat c"
  let ?c1 = "c\<lparr> A_mat := ?A[i := (?A ! i)[idx := 1]], y_ref_root := y_ref c \<rparr>"
  from Cons.prems idx have g: "i < length ?A" "idx < length (?A ! i)"
    and rest: "jnt_constraint (Suc i) jns jim ?c1 = (None, c2)"
    by (auto split: if_splits)
  from Cons.IH [OF rest] have
    len: "length (A_mat c2) = length ?A"
    and rows: "\<forall>m < length jns. \<exists>idx'. map_of jim (jns ! m) = Some idx' \<and> Suc i + m < length ?A
            \<and> idx' < length (?A[i := (?A ! i)[idx := 1]] ! (Suc i + m))
            \<and> A_mat c2 ! (Suc i + m) = (?A[i := (?A ! i)[idx := 1]] ! (Suc i + m))[idx' := 1]"
    and below: "\<forall>r. r < Suc i \<longrightarrow> A_mat c2 ! r = ?A[i := (?A ! i)[idx := 1]] ! r"
    and yr: "y_ref_root c2 = y_ref c" "y_ref c2 = y_ref c"
    by (simp_all split: if_splits)
  have "\<exists>idx'. map_of jim ((jn # jns) ! m) = Some idx' \<and> i + m < length ?A
            \<and> idx' < length (?A ! (i + m))
            \<and> A_mat c2 ! (i + m) = (?A ! (i + m))[idx' := 1]"
    if m: "m < length (jn # jns)" for m
  proof (cases m)
    case 0
    with below g idx show ?thesis by simp
  next
    case (Suc m')
    with m rows show ?thesis by simp
  qed
  moreover have "\<forall>r. r < i \<longrightarrow> A_mat c2 ! r = ?A ! r"
    using below by simp
  ultimately show ?case using len yr by simp
qed

lemma selection_row_again [simp]: "(selection_row n idx)[idx := 1] = selection_row n idx"
  by (simp add: selection_row_def)

text \<open>
  C5. For a joint constraint the assembled task matrix is a selection matrix: row \<open>i\<close> has 1
  at the column that the joint index map gives the \<open>i\<close>-th listed joint, and 0 elsewhere;
  the root-frame reference value equals the raw reference value. The constraint object is
  as the constructor shapes it (one variable and one reference entry per listed joint), and
  its task matrix is the zero matrix of the constructor or the selection matrix of an
  earlier cycle. For the robot with joints \<open>j1\<close>, \<open>j2\<close> and one constraint on \<open>j2\<close> with
  priority 0, weight 1, reference 0.5 and activation 1, the system of priority 0 has the
  task matrix row \<open>[0, 1]\<close>, the reference \<open>[0.5]\<close> and the weight \<open>[1]\<close>.
\<close>

theorem joint_selection_matrix:
  assumes "prepareEqSystem svd now tfs s eqs = (None, s', eqs')"
    and "distinct (concat (constraint_vector s))"
    and "prio < n_prios s" and "k < length (constraint_vector s ! prio)"
    and "c = heap s ! (constraint_vector s ! prio ! k)"
    and "c' = heap s' ! (constraint_vector s ! prio ! k)"
    and "ctype (config c) = jnt"
    and "no_variables c = length (joint_names (config c))"
    and "length (y_ref c) = no_variables c"
    and "A_mat c = zero_mat (no_variables c) (no_robot_joints s)
       \<or> A_mat c = selection_matrix (joint_index_map s) (no_robot_joints s) (joint_names (config c))"
  shows "segment (row_offset s prio k) (no_variables c) (eq_A (eqs' ! prio))
           = selection_matrix (joint_index_map s) (no_robot_joints s) (joint_names (config c))
       \<and> A_mat c' = selection_matrix (joint_index_map s) (no_robot_joints s) (joint_names (config c))
       \<and> y_ref_root c' = y_ref c'
       \<and> segment (row_offset s prio k) (no_variables c) (eq_y_ref (eqs' ! prio)) = y_ref c'
       \<and> y_ref c' = (if activation c = 0 then zero_vec (no_variables c) else y_ref c)"
proof -
  let ?jns = "joint_names (config c)"
  let ?N = "no_robot_joints s"
  let ?jim = "joint_index_map s"
  let ?sel = "selection_matrix ?jim ?N ?jns"
  from prepareEqSystem_None [OF assms(1-4)] assms(5,6) obtain jm jm' where
    ev: "evaluate_constraint svd (now prio k 0) (now prio k 1) tfs ?jim jm c = (None, jm', c')"
    and h: "holds_constraint (row_offset s prio k) (no_variables c) ?N c' (eqs' ! prio)"
    and m: "is_mat (no_variables c) ?N (A_mat c')"
    and l: "length (y_ref_root c') = no_variables c"
    by (auto simp: constraint_assembled_def Let_def)
  let ?c1 = "check_timeout (now prio k 0) c"
  have c1: "config ?c1 = config c" "A_mat ?c1 = A_mat c" "y_ref ?c1 = y_ref c"
    "y_ref_root ?c1 = y_ref_root c" "activation ?c1 = activation c"
    by (simp_all add: check_timeout_def Let_def)
  from ev assms(7) obtain c2 where jc: "jnt_constraint 0 ?jns ?jim ?c1 = (None, c2)"
    and c': "c' = zero_reference (c2\<lparr> time := now prio k 1 \<rparr>)"
    by (auto simp: evaluate_constraint_def Let_def c1 split: prod.splits option.splits)
  from jnt_constraint_fields [OF jc] have act: "activation c2 = activation c"
    by (simp add: c1)
  from jnt_constraint_None [OF jc] have
    len: "length (A_mat c2) = length (A_mat c)"
    and rows: "\<forall>i < length ?jns. \<exists>idx. map_of ?jim (?jns ! i) = Some idx \<and> i < length (A_mat c)
            \<and> idx < length (A_mat c ! i) \<and> A_mat c2 ! i = (A_mat c ! i)[idx := 1]"
    and yr: "y_ref_root c2 = (if ?jns = [] then y_ref_root c else y_ref c)" "y_ref c2 = y_ref c"
    by (simp_all add: c1)
  have A': "A_mat c' = A_mat c2" by (simp add: c' zero_reference_def)
  from m A' have len2: "length (A_mat c2) = length ?jns"
    by (simp add: is_mat_def assms(8))
  have "A_mat c2 ! i = ?sel ! i" if i: "i < length ?jns" for i
  proof -
    from rows i obtain idx where idx: "map_of ?jim (?jns ! i) = Some idx"
      and upd: "A_mat c2 ! i = (A_mat c ! i)[idx := 1]"
      by blast
    have "(A_mat c ! i)[idx := 1] = selection_row ?N idx"
      using assms(10)
    proof
      assume "A_mat c = zero_mat (no_variables c) ?N"
      with i show ?thesis by (simp add: zero_mat_def selection_row_def assms(8))
    next
      assume "A_mat c = ?sel"
      with i idx show ?thesis by (simp add: selection_matrix_def)
    qed
    with upd idx i show ?thesis by (simp add: selection_matrix_def)
  qed
  with len2 have sel: "A_mat c2 = ?sel"
    by (simp add: list_eq_iff_nth_eq selection_matrix_def)
  from h have "map (take ?N) (segment (row_offset s prio k) (no_variables c) (eq_A (eqs' ! prio))) = A_mat c'"
    and y: "segment (row_offset s prio k) (no_variables c) (eq_y_ref (eqs' ! prio)) = y_ref_root c'"
    by (simp_all add: holds_constraint_def)
  with segment_rows [OF prepareEqSystem_rows [OF assms(1,3)]] A' sel
  have 1: "segment (row_offset s prio k) (no_variables c) (eq_A (eqs' ! prio)) = ?sel"
    by simp
  have 3: "y_ref_root c' = y_ref c'"
  proof (cases "?jns = []")
    case True
    with l assms(8,9) evaluate_constraint_None(9) [OF ev] show ?thesis by simp
  next
    case False
    with yr show ?thesis by (simp add: c' zero_reference_def assms(9) [symmetric] l)
  qed
  have 5: "y_ref c' = (if activation c = 0 then zero_vec (no_variables c) else y_ref c)"
    using yr(2) act by (simp add: c' zero_reference_def assms(9))
  from 1 A' sel 3 y 5 show ?thesis by simp
qed


theorem joint_selection_matrix_witness:
  "\<exists>s'. prepareEqSystem no_svd (\<lambda>prio i k. 0) []
           (write_reference 0 [1 / 2] 1 0 (two_joint_solver 0)) []
         = (None, s', [\<lparr> eq_A = [[0, 1]], eq_y_ref = [1 / 2], eq_W_row = [1] \<rparr>])
       \<and> A_mat (heap s' ! 0) = [[0, 1]]
       \<and> y_ref_root (heap s' ! 0) = y_ref (heap s' ! 0)
       \<and> y_ref (heap s' ! 0) = [1 / 2]"
proof -
  let ?s = "write_reference 0 [1 / 2] 1 0 (two_joint_solver 0)"
  let ?now = "\<lambda>prio i k :: nat. 0 :: int"
  let ?c = "(ExtendedConstraint_new ((joint_config ''c'' 0 [''j2''])\<lparr> timeout := 0 \<rparr>) [''j1'', ''j2''])
                 \<lparr> y_ref := [1 / 2], activation := 1, last_ref_input := 0 \<rparr>"
  have "fst (prepareEqSystem no_svd ?now [] ?s []) = None
      \<and> snd (snd (prepareEqSystem no_svd ?now [] ?s []))
          = [\<lparr> eq_A = [[0, 1]], eq_y_ref = [1 / 2], eq_W_row = [1] \<rparr>]"
    by (simp add: two_joint_solver_eval write_reference_def assemble_eval configure_eval joint_config_def)
  then obtain s' where p: "prepareEqSystem no_svd ?now [] ?s []
      = (None, s', [\<lparr> eq_A = [[0, 1]], eq_y_ref = [1 / 2], eq_W_row = [1] \<rparr>])"
    by (metis prod.collapse)
  have c: "heap ?s ! (constraint_vector ?s ! 0 ! 0) = ?c"
    by (simp add: two_joint_solver_eval write_reference_def)
  have d: "distinct (concat (constraint_vector ?s))" "0 < n_prios ?s"
    "0 < length (constraint_vector ?s ! 0)" "row_offset ?s 0 0 = 0"
    "constraint_vector ?s ! 0 ! 0 = 0" "joint_index_map ?s = [(''j1'', 0), (''j2'', 1)]"
    "no_robot_joints ?s = 2"
    by (simp_all add: two_joint_solver_eval write_reference_def row_offset_def)
  have h: "ctype (config ?c) = jnt" "no_variables ?c = length (joint_names (config ?c))"
    "length (y_ref ?c) = no_variables ?c"
    "A_mat ?c = zero_mat (no_variables ?c) (no_robot_joints ?s)
       \<or> A_mat ?c = selection_matrix (joint_index_map ?s) (no_robot_joints ?s) (joint_names (config ?c))"
    by (simp_all add: ExtendedConstraint_new_def joint_config_def d numeral_2_eq_2)
  have sel: "selection_matrix [(''j1'', 0), (''j2'', 1)] 2 [''j2''] = [[0, 1]]"
    by (simp add: selection_matrix_def selection_row_def zero_vec_def numeral_2_eq_2)
  from joint_selection_matrix [OF p d(1,2,3) c [symmetric] refl h] d(4,5,6,7) sel p
  show ?thesis
    by (simp add: ExtendedConstraint_new_def joint_config_def)
qed

subsection \<open>A Cartesian example, evaluated\<close>

lemma upt_6: "[0..<6] = [0, 1, 2, 3, 4, 5]"
  by (simp add: upt_rec)

lemma arm_solver_eval:
  "arm_solver =
     \<lparr> configured = True, constraint_vector = [[0]], constraint_map = [(''c'', 0)],
       joint_index_map = [(''j1'', 0)],
       jac_map = [(''base'', zero_mat 6 1), (''hand'', zero_mat 6 1), (''tool'', zero_mat 6 1)],
       no_robot_joints = 1, n_constraints_per_prio = [6], n_prios = 1,
       task_frame_ids = [''base'', ''hand'', ''tool''],
       heap = [ExtendedConstraint_new (cart_config ''c'' 0 ''base'' ''hand'' ''tool'') [''j1'']] \<rparr>"
  by (simp add: arm_solver_def configure_def clear_def vector_resize_def Let_def map_count_def
        erase_empty_prios.simps count_constraints_def add_task_frame_def zero_jacobian_def
        WbcVelocity_new_def cart_config_def)
     (simp add: ExtendedConstraint_new_def zero_vec_def)

lemma local_jacobian_identity:
  "local_jacobian (Frame rot_identity (Vector 0 0 0)) (Frame rot_identity (Vector 0 0 0)) = identity_mat 6"
  by (simp add: local_jacobian_def changeRefFrame_def changeRefPoint_def map_columns_def
        of_columns_def identity_mat_def upt_6 jac_columns_def col_def twist_of_vec_def
        vec_of_twist_def frame_twist_def ref_point_def Let_def rot_identity_def vadd_def
        vdot_def cross_def vneg_def)


lemmas geometry_eval =
  frame_mul_def frame_inverse_def frame_twist_def rot_twist_def twist_to_root_def
  twist_of_vec_def vec_of_twist_def rot_identity_def vadd_def vdot_def cross_def vneg_def

lemma replicate_6: "replicate 6 x = [x, x, x, x, x, x]"
  by (simp add: numeral_eq_Suc)

lemma invert_identity:
  "invert_singular_values 0 (replicate 6 1) (identity_mat 6) = Inr (identity_mat 6)"
  by (simp add: replicate_6 identity_mat_def upt_6 reciprocal_def)

lemma pseudo_inverse_identity:
  "mat_mul 6 (identity_mat 6) (transpose_mat 6 (identity_mat 6)) = identity_mat 6"
  by (simp add: mat_mul_def transpose_mat_def identity_mat_def upt_6 col_def dot_def)

lemma task_matrix_unit_x:
  "mat_sub (mat_mul 1 (block_rows 6 6 (identity_mat 6)) unit_x_jacobian)
           (mat_mul 1 (block_rows 6 6 (identity_mat 6)) (zero_mat 6 1)) = unit_x_jacobian"
  by (simp add: mat_sub_def mat_mul_def block_rows_def identity_mat_def upt_6 col_def dot_def
        zero_mat_def zero_vec_def replicate_6 unit_x_jacobian_def)


lemma cart_constraint_eval:
  assumes "map_of tfs (root_frame (config c)) = Some tf_root"
    and "map_of tfs (tip (config c)) = Some tf_tip"
    and "map_of tfs (ref_frame (config c)) = Some tf_ref"
    and "svd (local_jacobian (tf_pose tf_root)
                (frame_mul (frame_inverse (tf_pose tf_root)) (tf_pose tf_tip))) = (U, S, V)"
    and "invert_singular_values 0 S U = Inr U'"
    and "H = mat_mul (length U') V (transpose_mat (jac_columns U') U')"
    and "no_variables c \<le> length V" and "6 \<le> length (y_ref c)" and "6 \<le> length (y_ref_root c)"
  shows "\<exists>jm' c'. cart_constraint svd tfs jm c = Inr (jm', c')
       \<and> jac_lookup jm' = jac_lookup jm
       \<and> config c' = config c \<and> no_variables c' = no_variables c \<and> weights c' = weights c
       \<and> activation c' = activation c \<and> constraint_timed_out c' = constraint_timed_out c
       \<and> y_ref c' = y_ref c \<and> H_mat c' = H
       \<and> A_mat c' = mat_sub
              (mat_mul (jac_columns (jac_lookup jm (tip (config c)))) (block_rows (no_variables c) 6 H)
                 (jac_lookup jm (tip (config c))))
              (mat_mul (jac_columns (jac_lookup jm (root_frame (config c)))) (block_rows (no_variables c) 6 H)
                 (jac_lookup jm (root_frame (config c))))
       \<and> y_ref_root c' = twist_to_root (frame_mul (frame_inverse (tf_pose tf_root)) (tf_pose tf_ref))
                             (y_ref c) @ drop 6 (y_ref_root c)"
proof -
  have lenH: "length H = length V" by (simp add: assms(6) mat_mul_def)
  obtain jm1 jr where m1: "map_index (zero_jacobian 0) jm (root_frame (config c)) = (jm1, jr)"
    by (cases "map_index (zero_jacobian 0) jm (root_frame (config c))")
  obtain jm2 jt where m2: "map_index (zero_jacobian 0) jm1 (tip (config c)) = (jm2, jt)"
    by (cases "map_index (zero_jacobian 0) jm1 (tip (config c))")
  from m1 jac_lookup_map_index [of jm "root_frame (config c)"]
  have j1: "jac_lookup jm1 = jac_lookup jm" "jr = jac_lookup jm (root_frame (config c))" by simp_all
  from m2 jac_lookup_map_index [of jm1 "tip (config c)"] j1
  have j2: "jac_lookup jm2 = jac_lookup jm" "jt = jac_lookup jm (tip (config c))" by simp_all
  from assms(1-5,7-9) lenH m1 m2 j1 j2 show ?thesis
    by (simp add: cart_constraint_def Let_def assms(6) [symmetric])
qed


lemma arm_evaluate:
  "\<exists>jm' c3. evaluate_constraint identity_svd n1 n2 (arm_frames p) jim
               [(''base'', zero_mat 6 1), (''hand'', unit_x_jacobian), (''tool'', zero_mat 6 1)]
               ((ExtendedConstraint_new (cart_config ''c'' 0 ''base'' ''hand'' ''tool'') [''j1''])
                  \<lparr> y_ref := [y0, y1, y2, y3, y4, y5], activation := 1, last_ref_input := 0 \<rparr>)
             = (None, jm', c3)
         \<and> jac_lookup jm'
             = jac_lookup [(''base'', zero_mat 6 1), (''hand'', unit_x_jacobian), (''tool'', zero_mat 6 1)]
         \<and> effective_weights c3 = [1, 1, 1, 1, 1, 1]
         \<and> A_mat c3 = unit_x_jacobian
         \<and> y_ref_root c3
             = twist_to_root (Frame rot_identity p) [y0, y1, y2, y3, y4, y5]"
proof -
  let ?c0 = "(ExtendedConstraint_new (cart_config ''c'' 0 ''base'' ''hand'' ''tool'') [''j1''])
                  \<lparr> y_ref := [y0, y1, y2, y3, y4, y5], activation := 1, last_ref_input := 0 \<rparr>"
  let ?jm = "[(''base'', zero_mat 6 1), (''hand'', unit_x_jacobian), (''tool'', zero_mat 6 1)]"
  let ?c1 = "check_timeout n1 ?c0"
  have c1: "config ?c1 = cart_config ''c'' 0 ''base'' ''hand'' ''tool''" "no_variables ?c1 = 6"
    "weights ?c1 = replicate 6 1" "activation ?c1 = 1" "constraint_timed_out ?c1 = 0"
    "y_ref ?c1 = [y0, y1, y2, y3, y4, y5]" "y_ref_root ?c1 = zero_vec 6"
    by (simp_all add: check_timeout_def ExtendedConstraint_new_def cart_config_def Let_def)
  have tf: "map_of (arm_frames p) (root_frame (config ?c1))
              = Some (fixed_frame (Frame rot_identity (Vector 0 0 0)))"
    "map_of (arm_frames p) (tip (config ?c1))
       = Some \<lparr> tf_joint_names = [''j1''], tf_jacobian = unit_x_jacobian,
                 tf_pose = Frame rot_identity (Vector 0 0 0) \<rparr>"
    "map_of (arm_frames p) (ref_frame (config ?c1)) = Some (fixed_frame (Frame rot_identity p))"
    unfolding c1 by (simp_all add: arm_frames_def cart_config_def)
  have svd: "identity_svd (local_jacobian (tf_pose (fixed_frame (Frame rot_identity (Vector 0 0 0))))
                (frame_mul (frame_inverse (tf_pose (fixed_frame (Frame rot_identity (Vector 0 0 0)))))
                   (tf_pose \<lparr> tf_joint_names = [''j1''], tf_jacobian = unit_x_jacobian,
                              tf_pose = Frame rot_identity (Vector 0 0 0) \<rparr>)))
             = (identity_mat 6, replicate 6 1, identity_mat 6)"
    by (simp add: identity_svd_def)
  have H: "identity_mat 6 = mat_mul (length (identity_mat 6)) (identity_mat 6)
                              (transpose_mat (jac_columns (identity_mat 6)) (identity_mat 6))"
  proof -
    have "length (identity_mat 6) = 6" "jac_columns (identity_mat 6) = 6"
      by (simp_all add: identity_mat_def jac_columns_def upt_6)
    then show ?thesis by (simp only: pseudo_inverse_identity)
  qed
  have g: "no_variables ?c1 \<le> length (identity_mat 6)" "6 \<le> length (y_ref ?c1)"
    "6 \<le> length (y_ref_root ?c1)"
    unfolding c1 by (simp_all add: identity_mat_def zero_vec_def)
  from cart_constraint_eval [where svd = identity_svd and c = ?c1 and jm = ?jm,
      OF tf svd invert_identity H g]
  obtain jm' c2 where cc: "cart_constraint identity_svd (arm_frames p) ?jm ?c1 = Inr (jm', c2)"
    and jl': "jac_lookup jm' = jac_lookup ?jm"
    and f: "weights c2 = weights ?c1" "activation c2 = activation ?c1"
      "constraint_timed_out c2 = constraint_timed_out ?c1"
    and A: "A_mat c2 = mat_sub
              (mat_mul (jac_columns (jac_lookup ?jm (tip (config ?c1)))) (block_rows (no_variables ?c1) 6 (identity_mat 6))
                 (jac_lookup ?jm (tip (config ?c1))))
              (mat_mul (jac_columns (jac_lookup ?jm (root_frame (config ?c1)))) (block_rows (no_variables ?c1) 6 (identity_mat 6))
                 (jac_lookup ?jm (root_frame (config ?c1))))"
    and y: "y_ref_root c2 = twist_to_root (frame_mul (frame_inverse (tf_pose (fixed_frame (Frame rot_identity (Vector 0 0 0)))))
                                (tf_pose (fixed_frame (Frame rot_identity p))))
                             (y_ref ?c1) @ drop 6 (y_ref_root ?c1)"
    by blast
  have jl: "jac_lookup ?jm ''hand'' = unit_x_jacobian" "jac_lookup ?jm ''base'' = zero_mat 6 1"
    by (simp_all add: jac_lookup_def map_index_def)
  have cols: "jac_columns (zero_mat 6 1) = 1" "jac_columns unit_x_jacobian = 1"
    by (simp_all add: jac_columns_def zero_mat_def zero_vec_def replicate_6 unit_x_jacobian_def)
  have t: "tip (cart_config ''c'' 0 ''base'' ''hand'' ''tool'') = ''hand''"
    "root_frame (cart_config ''c'' 0 ''base'' ''hand'' ''tool'') = ''base''"
    by (simp_all add: cart_config_def)
  have A': "A_mat c2 = unit_x_jacobian"
    unfolding A c1 t jl cols by (rule task_matrix_unit_x)
  have fr: "frame_mul (frame_inverse (Frame rot_identity (Vector 0 0 0))) (Frame rot_identity p)
              = Frame rot_identity p"
    by (cases p) (simp add: frame_mul_def frame_inverse_def rot_identity_def vadd_def vdot_def vneg_def)
  have y': "y_ref_root c2 = twist_to_root (Frame rot_identity p) [y0, y1, y2, y3, y4, y5]"
    unfolding y c1 by (simp add: fixed_frame_def fr zero_vec_def)
  let ?c3 = "zero_reference (c2\<lparr> time := n2 \<rparr>)"
  have c3: "?c3 = c2\<lparr> time := n2 \<rparr>"
    using f c1 by (simp add: zero_reference_def)
  have ev: "evaluate_constraint identity_svd n1 n2 (arm_frames p) jim ?jm ?c0 = (None, jm', ?c3)"
    using cc c1(1) by (simp add: evaluate_constraint_def Let_def cart_config_def)
  have w: "effective_weights ?c3 = [1, 1, 1, 1, 1, 1]"
    unfolding c3 using f c1 by (simp add: effective_weights_def replicate_6)
  from ev jl' w A' y' show ?thesis unfolding c3 by auto
qed


lemma arm_assemble:
  "\<exists>s'. prepareEqSystem identity_svd now (arm_frames p)
           (write_reference 0 [y0, y1, y2, y3, y4, y5] 1 0 arm_solver) []
         = (None, s',
            [\<lparr> eq_A = unit_x_jacobian,
               eq_y_ref = twist_to_root (Frame rot_identity p) [y0, y1, y2, y3, y4, y5],
               eq_W_row = [1, 1, 1, 1, 1, 1] \<rparr>])
       \<and> jac_lookup (jac_map s')
           = jac_lookup [(''base'', zero_mat 6 1), (''hand'', unit_x_jacobian), (''tool'', zero_mat 6 1)]"
proof -
  let ?c0 = "(ExtendedConstraint_new (cart_config ''c'' 0 ''base'' ''hand'' ''tool'') [''j1''])
                  \<lparr> y_ref := [y0, y1, y2, y3, y4, y5], activation := 1, last_ref_input := 0 \<rparr>"
  let ?jz = "[(''base'', zero_mat 6 1), (''hand'', zero_mat 6 1), (''tool'', zero_mat 6 1)]"
  let ?jm = "[(''base'', zero_mat 6 1), (''hand'', unit_x_jacobian), (''tool'', zero_mat 6 1)]"
  let ?s0 = "\<lparr> configured = True, constraint_vector = [[0]], constraint_map = [(''c'', 0)],
       joint_index_map = [(''j1'', 0)], jac_map = ?jz,
       no_robot_joints = 1, n_constraints_per_prio = [6], n_prios = 1,
       task_frame_ids = [''base'', ''hand'', ''tool''], heap = [?c0] \<rparr>"
  let ?sj = "\<lparr> configured = True, constraint_vector = [[0]], constraint_map = [(''c'', 0)],
       joint_index_map = [(''j1'', 0)], jac_map = ?jm,
       no_robot_joints = 1, n_constraints_per_prio = [6], n_prios = 1,
       task_frame_ids = [''base'', ''hand'', ''tool''], heap = [?c0] \<rparr>"
  let ?e0 = "\<lparr> eq_A = zero_mat 6 1, eq_y_ref = zero_vec 6, eq_W_row = zero_vec 6 \<rparr>"
  have s0: "write_reference 0 [y0, y1, y2, y3, y4, y5] 1 0 arm_solver = ?s0"
    by (simp add: arm_solver_eval write_reference_def)
  have e0: "les_resize 6 1 les_empty = ?e0"
    by (simp add: les_resize_def les_empty_def vector_resize_def zero_mat_def zero_vec_def)
  from arm_evaluate [of "now 0 0 0" "now 0 0 1" p "[(''j1'', 0)]" y0 y1 y2 y3 y4 y5]
  obtain jm' c3 where
    ev: "evaluate_constraint identity_svd (now 0 0 0) (now 0 0 1) (arm_frames p) [(''j1'', 0)] ?jm ?c0
           = (None, jm', c3)"
    and jl: "jac_lookup jm' = jac_lookup ?jm"
    and w: "effective_weights c3 = [1, 1, 1, 1, 1, 1]"
    and A: "A_mat c3 = unit_x_jacobian"
    and y: "y_ref_root c3 = twist_to_root (Frame rot_identity p) [y0, y1, y2, y3, y4, y5]"
    by blast
  let ?e1 = "\<lparr> eq_A = unit_x_jacobian,
               eq_y_ref = twist_to_root (Frame rot_identity p) [y0, y1, y2, y3, y4, y5],
               eq_W_row = [1, 1, 1, 1, 1, 1] \<rparr>"
  have ins: "insert_constraint 0 6 1 c3 ?e0 = Some ?e1"
    by (simp add: insert_constraint_def set_segment_def set_block_def is_mat_def w A y
          zero_mat_def zero_vec_def replicate_6 twist_to_root_def vec_of_twist_def
          unit_x_jacobian_def)
  have nv: "no_variables ?c0 = 6"
    by (simp add: ExtendedConstraint_new_def cart_config_def)
  let ?s1 = "?s0\<lparr> jac_map := jm', heap := [c3] \<rparr>"
  have uc: "update_constraint identity_svd (now 0 0 0) (now 0 0 1) (arm_frames p) 0 0 ?sj ?e0
              = (None, ?s1, ?e1)"
    by (simp add: update_constraint_def ev nv ins del: One_nat_def)
  have sc: "setColumn 0 (col unit_x_jacobian 0) (zero_mat 6 1) = unit_x_jacobian"
    by (simp add: setColumn_def col_def unit_x_jacobian_def zero_mat_def zero_vec_def replicate_6)
  have cols: "jac_columns (zero_mat 6 1) = 1" "jac_columns unit_x_jacobian = 1"
    by (simp_all add: jac_columns_def zero_mat_def zero_vec_def replicate_6 unit_x_jacobian_def)
  have z: "zero_mat 6 1 = [[0], [0], [0], [0], [0], [0]]"
    "zero_mat 6 (Suc 0) = [[0], [0], [0], [0], [0], [0]]"
    by (simp_all add: zero_mat_def zero_vec_def replicate_6)
  have uj: "update_jacobians (arm_frames p) ?s0 = (None, ?sj)"
    by (simp add: arm_frames_def fixed_frame_def map_index_def z unit_x_jacobian_def
          jac_columns_def setColumn_def col_def)
  have mc: "map_count (arm_frames p) ''base'' = 1" "map_count (arm_frames p) ''hand'' = 1"
    "map_count (arm_frames p) ''tool'' = 1"
    by (simp_all add: arm_frames_def map_count_def)
  have r1: "replicate 1 les_empty = [les_empty]" by simp
  have up: "update_prios identity_svd now (arm_frames p) [0..<1] ?sj [les_empty] = (None, ?s1, [?e1])"
    by (simp add: upt_rec [of 0 1] e0 uc nv del: One_nat_def)
  have "prepareEqSystem identity_svd now (arm_frames p) ?s0 [] = (None, ?s1, [?e1])"
    by (simp add: prepareEqSystem_def mc uj vector_resize_def r1 up del: One_nat_def)
  with jl show ?thesis unfolding s0 by auto
qed

subsection \<open>The guards of the assembly\<close>

lemma update_constraint_ids:
  "update_constraint svd n1 n2 tfs ptr r s e = (res, s', e') \<Longrightarrow>
   configured s' = configured s \<and> task_frame_ids s' = task_frame_ids s"
  by (auto simp: update_constraint_def split: if_splits prod.splits option.splits)

lemma update_constraints_ids:
  "update_constraints svd nw tfs i ptrs r s e = (res, s', e') \<Longrightarrow>
   configured s' = configured s \<and> task_frame_ids s' = task_frame_ids s"
proof (induction ptrs arbitrary: i r s e)
  case Nil
  then show ?case by simp
next
  case (Cons ptr ptrs)
  obtain err s1 e1 where step: "update_constraint svd (nw i 0) (nw i 1) tfs ptr r s e = (err, s1, e1)"
    by (metis prod_cases3)
  note f = update_constraint_ids [OF step]
  show ?case
  proof (cases err)
    case None
    with Cons.prems step
    have "update_constraints svd nw tfs (Suc i) ptrs (r + no_variables (heap s ! ptr)) s1 e1 = (res, s', e')"
      by simp
    from Cons.IH [OF this] f show ?thesis by simp
  next
    case (Some a)
    with Cons.prems step f show ?thesis by simp
  qed
qed

lemma update_prios_ids:
  "update_prios svd now tfs prios s eqs = (res, s', eqs') \<Longrightarrow>
   configured s' = configured s \<and> task_frame_ids s' = task_frame_ids s"
proof (induction prios arbitrary: s eqs)
  case Nil
  then show ?case by simp
next
  case (Cons prio prios)
  show ?case
  proof (cases "prio < length (n_constraints_per_prio s) \<and> prio < length eqs
         \<and> prio < length (constraint_vector s)")
    case False
    with Cons.prems show ?thesis by auto
  next
    case True
    obtain err s1 e1 where inner: "update_constraints svd (now prio) tfs 0 (constraint_vector s ! prio) 0 s
        (les_resize (n_constraints_per_prio s ! prio) (no_robot_joints s) (eqs ! prio)) = (err, s1, e1)"
      by (metis prod_cases3)
    note f = update_constraints_ids [OF inner]
    show ?thesis
    proof (cases err)
      case None
      with Cons.prems inner True
      have "update_prios svd now tfs prios s1 (eqs[prio := e1]) = (res, s', eqs')"
        by (simp add: Let_def)
      from Cons.IH [OF this] f show ?thesis by simp
    next
      case (Some a)
      with Cons.prems inner True f show ?thesis by (auto simp: Let_def)
    qed
  qed
qed

lemma prepareEqSystem_ids:
  assumes "prepareEqSystem svd now tfs s eqs = (res, s', eqs')"
  shows "configured s' = configured s \<and> task_frame_ids s' = task_frame_ids s"
proof (cases "configured s \<and> check_task_frames (task_frame_ids s) tfs")
  case False
  with assms show ?thesis by (auto simp: prepareEqSystem_def split: if_splits)
next
  case True
  obtain r s1 where uj: "update_jacobians tfs s = (r, s1)"
    by (cases "update_jacobians tfs s")
  from update_jacobians_frame [OF uj]
  have f: "configured s1 = configured s" "task_frame_ids s1 = task_frame_ids s"
    by (cases s; cases s1; simp)+
  show ?thesis
  proof (cases r)
    case (Some a)
    with assms True uj f show ?thesis by (simp add: prepareEqSystem_def)
  next
    case None
    with assms True uj
    have "update_prios svd now tfs [0..<n_prios s1] s1
            (if length eqs \<noteq> n_prios s1 then vector_resize (n_prios s1) les_empty eqs else eqs)
          = (res, s', eqs')"
      by (simp add: prepareEqSystem_def)
    from update_prios_ids [OF this] f show ?thesis by simp
  qed
qed

lemma configured_by_frames:
  "configured_by cfgs s \<Longrightarrow>
   configured s \<and> (\<forall>c \<in> set cfgs. ctype c = cart \<longrightarrow>
                     {root_frame c, tip c, ref_frame c} \<subseteq> set (task_frame_ids s))"
proof (induction rule: configured_by.induct)
  case (after_configure jns s0 s)
  then show ?case
    using configure_task_frame_ids [of cfgs jns s0 s] configure_success_sets_flag [of cfgs jns s0]
    by simp
next
  case (after_write s h)
  then show ?case by simp
next
  case (after_cycle s svd now tfs eqs r s' eqs')
  with prepareEqSystem_ids [OF after_cycle.hyps(2)] show ?case by simp
qed

text \<open>
  C8. The assembly fails with the not-configured error on a solver that has not been
  configured with success (a new solver, or one on which only failing calls of
  \<^verbatim>\<open>configure\<close> were made), and leaves the solver and the equations as they were. On a
  configured solver it fails with the incomplete-input error when the task-frame input has
  no entry for one of the required frame names, again before anything is changed. The
  required names hold the root, the tip and the reference frame of every Cartesian
  constraint: after \<^verbatim>\<open>configure\<close> and in every later cycle, whatever the callers wrote to
  the constraint objects and whatever the earlier cycles did to the registry.
\<close>

theorem assemble_rejects:
  "(\<not> configured s \<longrightarrow>
      prepareEqSystem svd now tfs s eqs = (Some NotConfigured, s, eqs))
   \<and> \<not> configured (WbcVelocity_new n0)
   \<and> (\<not> configured s \<and> \<not> fst (configure cfgs0 jns0 s) \<longrightarrow>
        \<not> configured (snd (configure cfgs0 jns0 s)))
   \<and> (configured s \<and> f \<in> set (task_frame_ids s) \<and> map_of tfs f = None \<longrightarrow>
        prepareEqSystem svd now tfs s eqs = (Some IncompleteTaskFrameInput, s, eqs))
   \<and> (configured_by cfgs s \<and> c \<in> set cfgs \<and> ctype c = cart
        \<and> f \<in> {root_frame c, tip c, ref_frame c} \<and> map_of tfs f = None \<longrightarrow>
        prepareEqSystem svd now tfs s eqs = (Some IncompleteTaskFrameInput, s, eqs))"
proof (intro conjI impI)
  assume "\<not> configured s"
  then show "prepareEqSystem svd now tfs s eqs = (Some NotConfigured, s, eqs)"
    by (simp add: prepareEqSystem_def)
next
  show "\<not> configured (WbcVelocity_new n0)" by (simp add: WbcVelocity_new_def)
next
  assume "\<not> configured s \<and> \<not> fst (configure cfgs0 jns0 s)"
  then show "\<not> configured (snd (configure cfgs0 jns0 s))"
    by (simp add: configure_failure_keeps_flag)
next
  assume a: "configured s \<and> f \<in> set (task_frame_ids s) \<and> map_of tfs f = None"
  then have "\<not> check_task_frames (task_frame_ids s) tfs"
    by (auto simp: check_task_frames_iff)
  with a show "prepareEqSystem svd now tfs s eqs = (Some IncompleteTaskFrameInput, s, eqs)"
    by (simp add: prepareEqSystem_def)
next
  assume a: "configured_by cfgs s \<and> c \<in> set cfgs \<and> ctype c = cart
        \<and> f \<in> {root_frame c, tip c, ref_frame c} \<and> map_of tfs f = None"
  with configured_by_frames [of cfgs s]
  have "configured s" and "f \<in> set (task_frame_ids s)" by auto
  with a have "\<not> check_task_frames (task_frame_ids s) tfs"
    by (auto simp: check_task_frames_iff)
  with \<open>configured s\<close>
  show "prepareEqSystem svd now tfs s eqs = (Some IncompleteTaskFrameInput, s, eqs)"
    by (simp add: prepareEqSystem_def)
qed

theorem assemble_rejects_witness:
  "prepareEqSystem identity_svd (\<lambda>prio i k. 0) [] (WbcVelocity_new 0) []
     = (Some NotConfigured, WbcVelocity_new 0, [])
   \<and> configure [cart_config ''c'' 0 ''base'' ''hand'' ''tool''] [''j1''] (WbcVelocity_new 0)
       = (True, arm_solver)
   \<and> prepareEqSystem identity_svd (\<lambda>prio i k. 0)
        [(''base'', fixed_frame (Frame rot_identity (Vector 0 0 0)))] arm_solver []
       = (Some IncompleteTaskFrameInput, arm_solver, [])
   \<and> (\<exists>s' eqs'.
        prepareEqSystem identity_svd (\<lambda>prio i k. 0) (arm_frames (Vector 1 0 0))
          (write_reference 0 [0, 0, 0, 0, 0, 1] 1 0 arm_solver) [] = (None, s', eqs')
        \<and> prepareEqSystem identity_svd (\<lambda>prio i k. 0)
            [(''base'', fixed_frame (Frame rot_identity (Vector 0 0 0))),
             (''hand'', fixed_frame (Frame rot_identity (Vector 0 0 0)))] s' eqs'
          = (Some IncompleteTaskFrameInput, s', eqs'))"
proof -
  let ?cfg = "cart_config ''c'' 0 ''base'' ''hand'' ''tool''"
  let ?now = "\<lambda>prio i k :: nat. 0 :: int"
  let ?tfs1 = "[(''base'', fixed_frame (Frame rot_identity (Vector 0 0 0)))]"
  let ?tfs2 = "[(''base'', fixed_frame (Frame rot_identity (Vector 0 0 0))),
             (''hand'', fixed_frame (Frame rot_identity (Vector 0 0 0)))]"
  have "fst (configure [?cfg] [''j1''] (WbcVelocity_new 0))"
    by (simp add: configure_eval cart_config_def)
  then have c: "configure [?cfg] [''j1''] (WbcVelocity_new 0) = (True, arm_solver)"
    unfolding arm_solver_def
    by (cases "configure [?cfg] [''j1''] (WbcVelocity_new 0)") simp
  have n: "\<not> configured (WbcVelocity_new 0)" by (simp add: WbcVelocity_new_def)
  from after_configure [OF c] have r0: "configured_by [?cfg] arm_solver" .
  from after_write [OF r0]
  have r1: "configured_by [?cfg] (write_reference 0 [0, 0, 0, 0, 0, 1] 1 0 arm_solver)"
    by (simp add: write_reference_def)
  from arm_assemble [of ?now "Vector 1 0 0" 0 0 0 0 0 1] obtain s' eqs' where
    p: "prepareEqSystem identity_svd ?now (arm_frames (Vector 1 0 0))
          (write_reference 0 [0, 0, 0, 0, 0, 1] 1 0 arm_solver) [] = (None, s', eqs')"
    by blast
  from after_cycle [OF r1 p] have r2: "configured_by [?cfg] s'" .
  have h1: "?cfg \<in> set [?cfg] \<and> ctype ?cfg = cart
      \<and> ''hand'' \<in> {root_frame ?cfg, tip ?cfg, ref_frame ?cfg} \<and> map_of ?tfs1 ''hand'' = None"
    by (simp add: cart_config_def)
  have h2: "?cfg \<in> set [?cfg] \<and> ctype ?cfg = cart
      \<and> ''tool'' \<in> {root_frame ?cfg, tip ?cfg, ref_frame ?cfg} \<and> map_of ?tfs2 ''tool'' = None"
    by (simp add: cart_config_def)
  from assemble_rejects [of "WbcVelocity_new 0" identity_svd ?now "[]" "[]"] n
  have 1: "prepareEqSystem identity_svd ?now [] (WbcVelocity_new 0) []
     = (Some NotConfigured, WbcVelocity_new 0, [])" by blast
  from assemble_rejects [of arm_solver identity_svd ?now ?tfs1 "[]" 0 "[]" "[]" "''hand''" "[?cfg]" ?cfg]
    r0 h1
  have 2: "prepareEqSystem identity_svd ?now ?tfs1 arm_solver []
       = (Some IncompleteTaskFrameInput, arm_solver, [])" by blast
  from assemble_rejects [of s' identity_svd ?now ?tfs2 eqs' 0 "[]" "[]" "''tool''" "[?cfg]" ?cfg]
    r2 h2
  have 3: "prepareEqSystem identity_svd ?now ?tfs2 s' eqs'
          = (Some IncompleteTaskFrameInput, s', eqs')" by blast
  from 1 c 2 p 3 show ?thesis by blast
qed

subsection \<open>The reference twist of a Cartesian constraint\<close>

lemma twist_at_displaced_tool:
  "twist_to_root (Frame rot_identity (Vector 1 0 0)) [0, 0, 0, 0, 0, 1] = [0, - 1, 0, 0, 0, 1]"
  by (simp add: geometry_eval)

text \<open>
  C2. The reference twist of a Cartesian constraint should be taken into the root frame by
  the orientation of \<open>root\<inverse> \<cdot> reference_frame\<close> alone. The code multiplies the twist by the
  whole \<^verbatim>\<open>KDL::Frame\<close>, which also moves the reference point. Here the root and the tip
  are at the origin, the reference frame is displaced by \<open>(1, 0, 0)\<close> and not rotated, and the
  reference twist is a rotation about \<open>z\<close>: the assembled reference carries the linear
  velocity \<open>(0, -1, 0)\<close>, where the orientation alone leaves the twist as it is.
\<close>

theorem reference_twist_takes_translation:
  "(\<exists>s'. prepareEqSystem identity_svd now (arm_frames (Vector 1 0 0))
            (write_reference 0 [0, 0, 0, 0, 0, 1] 1 0 arm_solver) []
          = (None, s',
             [\<lparr> eq_A = unit_x_jacobian, eq_y_ref = [0, - 1, 0, 0, 0, 1],
                eq_W_row = [1, 1, 1, 1, 1, 1] \<rparr>]))
   \<and> vec_of_twist (rot_twist
         (frame_M (frame_mul (frame_inverse (Frame rot_identity (Vector 0 0 0)))
                     (Frame rot_identity (Vector 1 0 0))))
         (twist_of_vec [0, 0, 0, 0, 0, 1])) = [0, 0, 0, 0, 0, 1]"
proof -
  from arm_assemble [of now "Vector 1 0 0" 0 0 0 0 0 1]
  have "\<exists>s'. prepareEqSystem identity_svd now (arm_frames (Vector 1 0 0))
            (write_reference 0 [0, 0, 0, 0, 0, 1] 1 0 arm_solver) []
          = (None, s',
             [\<lparr> eq_A = unit_x_jacobian, eq_y_ref = [0, - 1, 0, 0, 0, 1],
                eq_W_row = [1, 1, 1, 1, 1, 1] \<rparr>])"
    unfolding twist_at_displaced_tool by blast
  moreover have "vec_of_twist (rot_twist
         (frame_M (frame_mul (frame_inverse (Frame rot_identity (Vector 0 0 0)))
                     (Frame rot_identity (Vector 1 0 0))))
         (twist_of_vec [0, 0, 0, 0, 0, 1])) = [0, 0, 0, 0, 0, 1]"
    by (simp add: geometry_eval)
  ultimately show ?thesis by blast
qed

subsection \<open>The pseudo-inverse and the task matrix of a Cartesian constraint\<close>

lemma invert_singular_values_Inr:
  "\<exists>U'. invert_singular_values j S U = Inr U' \<and> length U' = length U
     \<and> (\<forall>r < length U. length (U' ! r) = length (U ! r)
           \<and> (\<forall>k < length (U ! r).
                 U' ! r ! k = (if j \<le> k \<and> k < j + length S
                               then (if 0 < S ! (k - j) then U ! r ! k * (1 / S ! (k - j)) else 0)
                               else U ! r ! k)))"
proof (induction S arbitrary: j U)
  case Nil
  then show ?case by simp
next
  case (Cons sv svs)
  let ?U1 = "if 0 < sv then map (\<lambda>row. row[j := row ! j * (1 / sv)]) U
             else map (\<lambda>row. row[j := 0]) U"
  have step: "invert_singular_values j (sv # svs) U = invert_singular_values (Suc j) svs ?U1"
    by (simp add: reciprocal_def)
  have l1: "length ?U1 = length U" by simp
  have e1: "length (?U1 ! r) = length (U ! r)
      \<and> (\<forall>k < length (U ! r). ?U1 ! r ! k
            = (if k = j then (if 0 < sv then U ! r ! k * (1 / sv) else 0) else U ! r ! k))"
    if "r < length U" for r
    using that by (auto simp: nth_list_update)
  from Cons.IH [of "Suc j" ?U1] obtain U' where
    r: "invert_singular_values (Suc j) svs ?U1 = Inr U'" and l: "length U' = length ?U1"
    and e: "\<forall>r < length ?U1. length (U' ! r) = length (?U1 ! r)
           \<and> (\<forall>k < length (?U1 ! r).
                 U' ! r ! k = (if Suc j \<le> k \<and> k < Suc j + length svs
                               then (if 0 < svs ! (k - Suc j) then ?U1 ! r ! k * (1 / svs ! (k - Suc j)) else 0)
                               else ?U1 ! r ! k))"
    by blast
  have "length (U' ! r) = length (U ! r)
           \<and> (\<forall>k < length (U ! r).
                 U' ! r ! k = (if j \<le> k \<and> k < j + length (sv # svs)
                               then (if 0 < (sv # svs) ! (k - j) then U ! r ! k * (1 / (sv # svs) ! (k - j)) else 0)
                               else U ! r ! k))"
    if rr: "r < length U" for r
  proof (intro conjI allI impI)
    from e rr l1 e1 [OF rr] show "length (U' ! r) = length (U ! r)" by simp
  next
    fix k assume k: "k < length (U ! r)"
    from e rr l1 e1 [OF rr] k
    have a: "U' ! r ! k = (if Suc j \<le> k \<and> k < Suc j + length svs
                               then (if 0 < svs ! (k - Suc j) then ?U1 ! r ! k * (1 / svs ! (k - Suc j)) else 0)
                               else ?U1 ! r ! k)"
      by simp
    from e1 [OF rr] k
    have b: "?U1 ! r ! k = (if k = j then (if 0 < sv then U ! r ! k * (1 / sv) else 0) else U ! r ! k)"
      by blast
    show "U' ! r ! k = (if j \<le> k \<and> k < j + length (sv # svs)
                               then (if 0 < (sv # svs) ! (k - j) then U ! r ! k * (1 / (sv # svs) ! (k - j)) else 0)
                               else U ! r ! k)"
    proof (cases "k = j")
      case True
      with a b show ?thesis by simp
    next
      case False
      show ?thesis
      proof (cases "j < k")
        case True
        then obtain d where d: "k = Suc j + d" by (metis less_iff_Suc_add add_Suc)
        with a b False show ?thesis by simp
      next
        case nl: False
        with False have "k < j" by simp
        with a b show ?thesis by simp
      qed
    qed
  qed
  with step r l l1 show ?case by simp
qed

lemma dot_upt:
  "length u = n \<Longrightarrow> dot u (map g [0..<n]) = sum_list (map (\<lambda>j. u ! j * g j) [0..<n])"
proof -
  assume "length u = n"
  then have "map2 (*) u (map g [0..<n]) = map (\<lambda>j. u ! j * g j) [0..<n]"
    by (simp add: list_eq_iff_nth_eq)
  then show ?thesis by (simp add: dot_def)
qed

lemma dot_diff:
  "length a = length b \<Longrightarrow> dot u (map2 (-) a b) = dot u a - dot u b"
proof (induction u arbitrary: a b)
  case Nil
  then show ?case by (simp add: dot_def)
next
  case (Cons x u)
  show ?case
  proof (cases a)
    case Nil
    with Cons.prems show ?thesis by (simp add: dot_def)
  next
    case a: (Cons y a')
    with Cons.prems obtain z b' where b: "b = z # b'" "length a' = length b'"
      by (cases b) auto
    from Cons.IH [OF b(2)] show ?thesis
      by (simp add: a b dot_def algebra_simps)
  qed
qed

lemma map2_same: "map2 h (map f xs) (map g xs) = map (\<lambda>x. h (f x) (g x)) xs"
  by (induction xs) simp_all

lemma col_mat_sub:
  assumes "length A = length B" and "\<forall>row \<in> set A. j < length row" and "\<forall>row \<in> set B. j < length row"
  shows "col (mat_sub A B) j = map2 (-) (col A j) (col B j)"
  using assms
  by (induction A B rule: list_induct2) (simp_all add: col_def mat_sub_def)

lemma mat_mul_sub:
  assumes "is_mat r N A" and "is_mat r N B"
  shows "mat_sub (mat_mul N Hb A) (mat_mul N Hb B) = mat_mul N Hb (mat_sub A B)"
proof -
  from assms have len: "length A = length B"
    and ra: "\<forall>row \<in> set A. length row = N" and rb: "\<forall>row \<in> set B. length row = N"
    by (simp_all add: is_mat_def list_all_iff)
  have "dot row (col A j) - dot row (col B j) = dot row (col (mat_sub A B) j)"
    if "j < N" for row j
  proof -
    from that ra rb have "col (mat_sub A B) j = map2 (-) (col A j) (col B j)"
      by (intro col_mat_sub [OF len]) auto
    moreover have "length (col A j) = length (col B j)" using len by (simp add: col_def)
    ultimately show ?thesis by (simp add: dot_diff)
  qed
  then show ?thesis
    by (simp add: mat_mul_def mat_sub_def map2_same)
qed

lemma jac_columns_is_mat: "is_mat (Suc r) N J \<Longrightarrow> jac_columns J = N"
  by (cases J) (simp_all add: is_mat_def jac_columns_def)


lemma pseudo_inverse_entries:
  assumes "is_mat 6 6 U" and "length S = 6" and "is_mat 6 6 V"
    and "invert_singular_values 0 S U = Inr U'"
  shows "mat_mul (length U') V (transpose_mat (jac_columns U') U')
           = map (\<lambda>r. map (\<lambda>k. sum_list (map (\<lambda>j. V ! r ! j
                                   * (if 0 < S ! j then U ! k ! j / S ! j else 0)) [0..<6]))
                     [0..<6]) [0..<6]"
proof -
  from assms(1) have lU: "length U = 6" and rU: "\<forall>r < 6. length (U ! r) = 6"
    by (simp_all add: is_mat_def list_all_length)
  from assms(3) have lV: "length V = 6" and rV: "\<forall>r < 6. length (V ! r) = 6"
    by (simp_all add: is_mat_def list_all_length)
  from invert_singular_values_Inr [of 0 S U] assms(4) lU rU assms(2)
  have lU': "length U' = 6" and rU': "\<forall>r < 6. length (U' ! r) = 6"
    and eU': "\<forall>r < 6. \<forall>k < 6. U' ! r ! k = (if 0 < S ! k then U ! r ! k * (1 / S ! k) else 0)"
    by auto
  have "is_mat (Suc 5) 6 U'" using lU' rU' by (simp add: is_mat_def list_all_length)
  then have cU': "jac_columns U' = 6" by (rule jac_columns_is_mat)
  have colT: "col (transpose_mat 6 U') k = map (\<lambda>j. U' ! k ! j) [0..<6]" if "k < 6" for k
    using that lU' by (simp add: col_def transpose_mat_def)
  have entry: "dot (V ! r) (col (transpose_mat 6 U') k)
      = sum_list (map (\<lambda>j. V ! r ! j * (if 0 < S ! j then U ! k ! j / S ! j else 0)) [0..<6])"
    if r: "r < 6" and k: "k < 6" for r k
  proof -
    from rV r have "length (V ! r) = 6" by simp
    from dot_upt [OF this] colT [OF k]
    have "dot (V ! r) (col (transpose_mat 6 U') k) = sum_list (map (\<lambda>j. V ! r ! j * U' ! k ! j) [0..<6])"
      by simp
    also have "map (\<lambda>j. V ! r ! j * U' ! k ! j) [0..<6]
                 = map (\<lambda>j. V ! r ! j * (if 0 < S ! j then U ! k ! j / S ! j else 0)) [0..<6]"
      using eU' k by (intro map_cong [OF refl]) simp
    finally show ?thesis .
  qed
  show ?thesis
    unfolding lU' cU' mat_mul_def
    by (rule nth_equalityI) (simp_all add: lV entry)
qed


lemma col_mat_sub_upt:
  assumes "is_mat n N A" and "is_mat n N B" and "m < N"
  shows "col (mat_sub A B) m = map (\<lambda>i. A ! i ! m - B ! i ! m) [0..<n]"
proof -
  from assms have l: "length A = n" "length B = n"
    and r: "\<forall>i < n. length (A ! i) = N" "\<forall>i < n. length (B ! i) = N"
    by (simp_all add: is_mat_def list_all_length)
  with assms(3) show ?thesis
    by (intro nth_equalityI) (simp_all add: col_def mat_sub_def)
qed

lemma mat_mul_entry:
  assumes "r < length A" and "m < N" and "length (A ! r) = n"
    and "is_mat n N Jt" and "is_mat n N Jr"
  shows "mat_mul N A (mat_sub Jt Jr) ! r ! m
           = sum_list (map (\<lambda>i. A ! r ! i * (Jt ! i ! m - Jr ! i ! m)) [0..<n])"
proof -
  from assms(1,2) have "mat_mul N A (mat_sub Jt Jr) ! r ! m = dot (A ! r) (col (mat_sub Jt Jr) m)"
    by (simp add: mat_mul_def)
  also have "\<dots> = dot (A ! r) (map (\<lambda>i. Jt ! i ! m - Jr ! i ! m) [0..<n])"
    by (simp only: col_mat_sub_upt [OF assms(4,5,2)])
  also have "\<dots> = sum_list (map (\<lambda>i. A ! r ! i * (Jt ! i ! m - Jr ! i ! m)) [0..<n])"
    by (rule dot_upt [OF assms(3)])
  finally show ?thesis .
qed

lemma invert_deficient:
  "invert_singular_values 0 [2, 1, 1, 1, 1, 0]
     [[0, 1, 0, 0, 0, 0], [1, 0, 0, 0, 0, 0], [0, 0, 1, 0, 0, 0],
      [0, 0, 0, 1, 0, 0], [0, 0, 0, 0, 1, 0], [0, 0, 0, 0, 0, 1]]
   = Inr [[0, 1, 0, 0, 0, 0], [1 / 2, 0, 0, 0, 0, 0], [0, 0, 1, 0, 0, 0],
          [0, 0, 0, 1, 0, 0], [0, 0, 0, 0, 1, 0], [0, 0, 0, 0, 0, 0]]"
  by (simp add: reciprocal_def)

lemma pseudo_inverse_deficient:
  "mat_mul 6 (identity_mat 6)
     (transpose_mat 6 [[0, 1, 0, 0, 0, 0], [1 / 2, 0, 0, 0, 0, 0], [0, 0, 1, 0, 0, 0],
          [0, 0, 0, 1, 0, 0], [0, 0, 0, 0, 1, 0], [0, 0, 0, 0, 0, 0]])
   = deficient_inverse"
  by (simp add: mat_mul_def transpose_mat_def identity_mat_def upt_6 col_def dot_def
        deficient_inverse_def)

lemma task_matrix_deficient:
  "mat_sub (mat_mul 1 (block_rows 6 6 deficient_inverse) hand_jacobian)
           (mat_mul 1 (block_rows 6 6 deficient_inverse) base_jacobian)
   = [[- 1 / 2], [4], [0], [0], [0], [0]]"
  by (simp add: mat_sub_def mat_mul_def block_rows_def deficient_inverse_def col_def dot_def
        hand_jacobian_def base_jacobian_def)

lemma deficient_evaluate:
  "\<exists>jm' c3. evaluate_constraint deficient_svd n1 n2 moving_frames jim
               [(''base'', base_jacobian), (''hand'', hand_jacobian), (''tool'', zero_mat 6 1)]
               ((ExtendedConstraint_new (cart_config ''c'' 0 ''base'' ''hand'' ''tool'') [''j1''])
                  \<lparr> y_ref := [y0, y1, y2, y3, y4, y5], activation := 1, last_ref_input := 0 \<rparr>)
             = (None, jm', c3)
         \<and> jac_lookup jm'
             = jac_lookup [(''base'', base_jacobian), (''hand'', hand_jacobian), (''tool'', zero_mat 6 1)]
         \<and> effective_weights c3 = [1, 1, 1, 1, 1, 1]
         \<and> A_mat c3 = [[- 1 / 2], [4], [0], [0], [0], [0]]
         \<and> y_ref_root c3 = [y0, y1, y2, y3, y4, y5]"
proof -
  let ?c0 = "(ExtendedConstraint_new (cart_config ''c'' 0 ''base'' ''hand'' ''tool'') [''j1''])
                  \<lparr> y_ref := [y0, y1, y2, y3, y4, y5], activation := 1, last_ref_input := 0 \<rparr>"
  let ?jm = "[(''base'', base_jacobian), (''hand'', hand_jacobian), (''tool'', zero_mat 6 1)]"
  let ?U = "[[0, 1, 0, 0, 0, 0], [1, 0, 0, 0, 0, 0], [0, 0, 1, 0, 0, 0],
             [0, 0, 0, 1, 0, 0], [0, 0, 0, 0, 1, 0], [0, 0, 0, 0, 0, 1 :: real]]"
  let ?U' = "[[0, 1, 0, 0, 0, 0], [1 / 2, 0, 0, 0, 0, 0], [0, 0, 1, 0, 0, 0],
              [0, 0, 0, 1, 0, 0], [0, 0, 0, 0, 1, 0], [0, 0, 0, 0, 0, 0 :: real]]"
  let ?base = "\<lparr> tf_joint_names = [''j1''], tf_jacobian = base_jacobian,
                   tf_pose = Frame rot_identity (Vector 0 0 0) \<rparr>"
  let ?hand = "\<lparr> tf_joint_names = [''j1''], tf_jacobian = hand_jacobian,
                   tf_pose = Frame rot_identity (Vector 0 0 0) \<rparr>"
  let ?tool = "fixed_frame (Frame rot_identity (Vector 0 0 0))"
  let ?c1 = "check_timeout n1 ?c0"
  have c1: "config ?c1 = cart_config ''c'' 0 ''base'' ''hand'' ''tool''" "no_variables ?c1 = 6"
    "weights ?c1 = replicate 6 1" "activation ?c1 = 1" "constraint_timed_out ?c1 = 0"
    "y_ref ?c1 = [y0, y1, y2, y3, y4, y5]" "y_ref_root ?c1 = zero_vec 6"
    by (simp_all add: check_timeout_def ExtendedConstraint_new_def cart_config_def Let_def)
  have tf: "map_of moving_frames (root_frame (config ?c1)) = Some ?base"
    "map_of moving_frames (tip (config ?c1)) = Some ?hand"
    "map_of moving_frames (ref_frame (config ?c1)) = Some ?tool"
    unfolding c1 by (simp_all add: moving_frames_def cart_config_def)
  have svd: "deficient_svd (local_jacobian (tf_pose ?base)
                (frame_mul (frame_inverse (tf_pose ?base)) (tf_pose ?hand)))
             = (?U, [2, 1, 1, 1, 1, 0], identity_mat 6)"
    by (simp add: deficient_svd_def)
  have H: "deficient_inverse = mat_mul (length ?U') (identity_mat 6)
                              (transpose_mat (jac_columns ?U') ?U')"
  proof -
    have "length ?U' = 6" "jac_columns ?U' = 6"
      by (simp_all add: jac_columns_def)
    then show ?thesis by (simp only: pseudo_inverse_deficient)
  qed
  have g: "no_variables ?c1 \<le> length (identity_mat 6)" "6 \<le> length (y_ref ?c1)"
    "6 \<le> length (y_ref_root ?c1)"
    unfolding c1 by (simp_all add: identity_mat_def zero_vec_def)
  from cart_constraint_eval [where svd = deficient_svd and c = ?c1 and jm = ?jm,
      OF tf svd invert_deficient H g]
  obtain jm' c2 where cc: "cart_constraint deficient_svd moving_frames ?jm ?c1 = Inr (jm', c2)"
    and jl': "jac_lookup jm' = jac_lookup ?jm"
    and f: "weights c2 = weights ?c1" "activation c2 = activation ?c1"
      "constraint_timed_out c2 = constraint_timed_out ?c1"
    and A: "A_mat c2 = mat_sub
              (mat_mul (jac_columns (jac_lookup ?jm (tip (config ?c1)))) (block_rows (no_variables ?c1) 6 deficient_inverse)
                 (jac_lookup ?jm (tip (config ?c1))))
              (mat_mul (jac_columns (jac_lookup ?jm (root_frame (config ?c1)))) (block_rows (no_variables ?c1) 6 deficient_inverse)
                 (jac_lookup ?jm (root_frame (config ?c1))))"
    and y: "y_ref_root c2 = twist_to_root (frame_mul (frame_inverse (tf_pose ?base)) (tf_pose ?tool))
                             (y_ref ?c1) @ drop 6 (y_ref_root ?c1)"
    by blast
  have jl: "jac_lookup ?jm ''hand'' = hand_jacobian" "jac_lookup ?jm ''base'' = base_jacobian"
    by (simp_all add: jac_lookup_def map_index_def)
  have cols: "jac_columns base_jacobian = 1" "jac_columns hand_jacobian = 1"
    by (simp_all add: jac_columns_def base_jacobian_def hand_jacobian_def)
  have t: "tip (cart_config ''c'' 0 ''base'' ''hand'' ''tool'') = ''hand''"
    "root_frame (cart_config ''c'' 0 ''base'' ''hand'' ''tool'') = ''base''"
    by (simp_all add: cart_config_def)
  have A': "A_mat c2 = [[- 1 / 2], [4], [0], [0], [0], [0]]"
    unfolding A c1 t jl cols by (rule task_matrix_deficient)
  have y': "y_ref_root c2 = [y0, y1, y2, y3, y4, y5]"
    unfolding y c1 by (simp add: fixed_frame_def zero_vec_def geometry_eval)
  let ?c3 = "zero_reference (c2\<lparr> time := n2 \<rparr>)"
  have c3: "?c3 = c2\<lparr> time := n2 \<rparr>"
    using f c1 by (simp add: zero_reference_def)
  have ev: "evaluate_constraint deficient_svd n1 n2 moving_frames jim ?jm ?c0 = (None, jm', ?c3)"
    using cc c1(1) by (simp add: evaluate_constraint_def Let_def cart_config_def)
  have w: "effective_weights ?c3 = [1, 1, 1, 1, 1, 1]"
    unfolding c3 using f c1 by (simp add: effective_weights_def replicate_6)
  from ev jl' w A' y' show ?thesis unfolding c3 by auto
qed

lemma deficient_assemble:
  "\<exists>s' eqs'. prepareEqSystem deficient_svd now moving_frames
           (write_reference 0 [y0, y1, y2, y3, y4, y5] 1 0 arm_solver) []
         = (None, s', eqs')
       \<and> jac_lookup (jac_map s')
           = jac_lookup [(''base'', base_jacobian), (''hand'', hand_jacobian), (''tool'', zero_mat 6 1)]"
proof -
  let ?c0 = "(ExtendedConstraint_new (cart_config ''c'' 0 ''base'' ''hand'' ''tool'') [''j1''])
                  \<lparr> y_ref := [y0, y1, y2, y3, y4, y5], activation := 1, last_ref_input := 0 \<rparr>"
  let ?jz = "[(''base'', zero_mat 6 1), (''hand'', zero_mat 6 1), (''tool'', zero_mat 6 1)]"
  let ?jm = "[(''base'', base_jacobian), (''hand'', hand_jacobian), (''tool'', zero_mat 6 1)]"
  let ?s0 = "\<lparr> configured = True, constraint_vector = [[0]], constraint_map = [(''c'', 0)],
       joint_index_map = [(''j1'', 0)], jac_map = ?jz,
       no_robot_joints = 1, n_constraints_per_prio = [6], n_prios = 1,
       task_frame_ids = [''base'', ''hand'', ''tool''], heap = [?c0] \<rparr>"
  let ?sj = "\<lparr> configured = True, constraint_vector = [[0]], constraint_map = [(''c'', 0)],
       joint_index_map = [(''j1'', 0)], jac_map = ?jm,
       no_robot_joints = 1, n_constraints_per_prio = [6], n_prios = 1,
       task_frame_ids = [''base'', ''hand'', ''tool''], heap = [?c0] \<rparr>"
  let ?e0 = "\<lparr> eq_A = zero_mat 6 1, eq_y_ref = zero_vec 6, eq_W_row = zero_vec 6 \<rparr>"
  have s0: "write_reference 0 [y0, y1, y2, y3, y4, y5] 1 0 arm_solver = ?s0"
    by (simp add: arm_solver_eval write_reference_def)
  have e0: "les_resize 6 1 les_empty = ?e0"
    by (simp add: les_resize_def les_empty_def vector_resize_def zero_mat_def zero_vec_def)
  from deficient_evaluate [of "now 0 0 0" "now 0 0 1" "[(''j1'', 0)]" y0 y1 y2 y3 y4 y5]
  obtain jm' c3 where
    ev: "evaluate_constraint deficient_svd (now 0 0 0) (now 0 0 1) moving_frames [(''j1'', 0)] ?jm ?c0
           = (None, jm', c3)"
    and jl: "jac_lookup jm' = jac_lookup ?jm"
    and w: "effective_weights c3 = [1, 1, 1, 1, 1, 1]"
    and A: "A_mat c3 = [[- 1 / 2], [4], [0], [0], [0], [0]]"
    and y: "y_ref_root c3 = [y0, y1, y2, y3, y4, y5]"
    by blast
  let ?e1 = "\<lparr> eq_A = [[- 1 / 2], [4], [0], [0], [0], [0]],
               eq_y_ref = [y0, y1, y2, y3, y4, y5],
               eq_W_row = [1, 1, 1, 1, 1, 1] \<rparr>"
  have ins: "insert_constraint 0 6 1 c3 ?e0 = Some ?e1"
    by (simp add: insert_constraint_def set_segment_def set_block_def is_mat_def w A y
          zero_mat_def zero_vec_def replicate_6)
  have nv: "no_variables ?c0 = 6"
    by (simp add: ExtendedConstraint_new_def cart_config_def)
  let ?s1 = "?s0\<lparr> jac_map := jm', heap := [c3] \<rparr>"
  have uc: "update_constraint deficient_svd (now 0 0 0) (now 0 0 1) moving_frames 0 0 ?sj ?e0
              = (None, ?s1, ?e1)"
    by (simp add: update_constraint_def ev nv ins del: One_nat_def)
  have z: "zero_mat 6 1 = [[0], [0], [0], [0], [0], [0]]"
    "zero_mat 6 (Suc 0) = [[0], [0], [0], [0], [0], [0]]"
    by (simp_all add: zero_mat_def zero_vec_def replicate_6)
  have uj: "update_jacobians moving_frames ?s0 = (None, ?sj)"
    by (simp add: moving_frames_def fixed_frame_def map_index_def z base_jacobian_def
          hand_jacobian_def jac_columns_def setColumn_def col_def)
  have mc: "map_count moving_frames ''base'' = 1" "map_count moving_frames ''hand'' = 1"
    "map_count moving_frames ''tool'' = 1"
    by (simp_all add: moving_frames_def map_count_def)
  have r1: "replicate 1 les_empty = [les_empty]" by simp
  have up: "update_prios deficient_svd now moving_frames [0..<1] ?sj [les_empty] = (None, ?s1, [?e1])"
    by (simp add: upt_rec [of 0 1] e0 uc nv del: One_nat_def)
  have "prepareEqSystem deficient_svd now moving_frames ?s0 [] = (None, ?s1, [?e1])"
    by (simp add: prepareEqSystem_def mc uj vector_resize_def r1 up del: One_nat_def)
  with jl show ?thesis unfolding s0 by auto
qed

lemma list_6: "length xs = 6 \<Longrightarrow> xs = [xs ! 0, xs ! 1, xs ! 2, xs ! 3, xs ! 4, xs ! 5]"
  by (rule nth_equalityI) (auto simp: nth_Cons' less_Suc_eq eval_nat_numeral)

lemma list_1: "length xs = 1 \<Longrightarrow> xs = [xs ! 0]"
  by (cases xs) simp_all


text \<open>
  C7. For a Cartesian constraint the pseudo-inverse of the local 6\<times>6 Jacobian comes from its
  singular value decomposition \<open>(U, S, V)\<close>: entry \<open>(r, k)\<close> of \<open>H\<close> is the sum over \<open>j\<close> of
  \<open>V r j \<cdot> U k j / S j\<close>, taken over the \<open>j\<close> with \<open>S j > 0\<close> only; a singular value \<open>\<le> 0\<close>
  contributes nothing. The inversion never divides by zero, whatever the singular values.
  In an assembly that succeeds the constraint has 6 variables, so the selected block is all
  of \<open>H\<close>, and the task matrix has 6 rows and one column per robot joint: its entry \<open>(r, m)\<close> is
  the sum over \<open>i\<close> of \<open>H r i \<cdot> (Jt i m - Jr i m)\<close>, where \<open>Jt\<close> and \<open>Jr\<close> are the Jacobians that
  the registry holds for the tip and for the root. The rows of the constraint in the system
  of its priority hold this matrix. \<^verbatim>\<open>double\<close> is idealised as \<open>real\<close>; the decomposition
  itself is a parameter.
\<close>

theorem cartesian_task_matrix:
  assumes "prepareEqSystem svd now tfs s eqs = (None, s', eqs')"
    and "distinct (concat (constraint_vector s))"
    and "prio < n_prios s" and "k < length (constraint_vector s ! prio)"
    and "c = heap s ! (constraint_vector s ! prio ! k)"
    and "c' = heap s' ! (constraint_vector s ! prio ! k)"
    and "ctype (config c) = cart"
    and "map_of tfs (root_frame (config c)) = Some tf_root"
    and "map_of tfs (tip (config c)) = Some tf_tip"
    and "svd (local_jacobian (tf_pose tf_root)
                (frame_mul (frame_inverse (tf_pose tf_root)) (tf_pose tf_tip))) = (U, S, V)"
    and "is_mat 6 6 U" and "length S = 6" and "is_mat 6 6 V"
    and "Jt = jac_lookup (jac_map s') (tip (config c))"
    and "Jr = jac_lookup (jac_map s') (root_frame (config c))"
    and "is_mat 6 (no_robot_joints s) Jt" and "is_mat 6 (no_robot_joints s) Jr"
  shows "H_mat c' = map (\<lambda>r. map (\<lambda>k. sum_list (map (\<lambda>j. V ! r ! j
                                   * (if 0 < S ! j then U ! k ! j / S ! j else 0)) [0..<6]))
                     [0..<6]) [0..<6]
       \<and> no_variables c = 6
       \<and> length (A_mat c') = 6
       \<and> (\<forall>r < 6. length (A_mat c' ! r) = no_robot_joints s
             \<and> (\<forall>m < no_robot_joints s.
                   A_mat c' ! r ! m
                     = sum_list (map (\<lambda>i. H_mat c' ! r ! i * (Jt ! i ! m - Jr ! i ! m)) [0..<6])))
       \<and> segment (row_offset s prio k) 6 (eq_A (eqs' ! prio)) = A_mat c'
       \<and> invert_singular_values j0 S0 U0 \<noteq> Inl DivisionByZero"
proof -
  let ?N = "no_robot_joints s"
  let ?n = "no_variables c"
  from prepareEqSystem_None [OF assms(1-4)] assms(5,6) obtain jm jm' where
    jl: "jac_lookup jm = jac_lookup (jac_map s')"
    and ev: "evaluate_constraint svd (now prio k 0) (now prio k 1) tfs (joint_index_map s) jm c
           = (None, jm', c')"
    and h: "holds_constraint (row_offset s prio k) ?n ?N c' (eqs' ! prio)"
    and Am: "is_mat ?n ?N (A_mat c')"
    and ly: "length (y_ref_root c') = ?n"
    by (auto simp: constraint_assembled_def Let_def)
  let ?c1 = "check_timeout (now prio k 0) c"
  have c1: "config ?c1 = config c" "no_variables ?c1 = ?n"
    by (simp_all add: check_timeout_def Let_def)
  from ev assms(7) obtain c2 where cc: "cart_constraint svd tfs jm ?c1 = Inr (jm', c2)"
    and c': "c' = zero_reference (c2\<lparr> time := now prio k 1 \<rparr>)"
    by (auto simp: evaluate_constraint_def Let_def c1 split: sum.splits)
  from cart_constraint_Inr [OF cc] assms(8,9,10) obtain U' F where
    inv: "invert_singular_values 0 S U = Inr U'"
    and H2: "H_mat c2 = mat_mul (length U') V (transpose_mat (jac_columns U') U')"
    and A2: "A_mat c2 = mat_sub
                     (mat_mul (jac_columns (jac_lookup jm (tip (config c))))
                        (block_rows ?n 6 (mat_mul (length U') V (transpose_mat (jac_columns U') U')))
                        (jac_lookup jm (tip (config c))))
                     (mat_mul (jac_columns (jac_lookup jm (root_frame (config c))))
                        (block_rows ?n 6 (mat_mul (length U') V (transpose_mat (jac_columns U') U')))
                        (jac_lookup jm (root_frame (config c))))"
    and y2: "y_ref_root c2 = twist_to_root F (y_ref ?c1) @ drop 6 (y_ref_root ?c1)"
    and y6: "6 \<le> length (y_ref_root ?c1)"
    by (auto simp: c1)
  have HA: "H_mat c' = H_mat c2" "A_mat c' = A_mat c2"
    by (simp_all add: c' zero_reference_def)
  have 1: "H_mat c' = map (\<lambda>r. map (\<lambda>k. sum_list (map (\<lambda>j. V ! r ! j
                                   * (if 0 < S ! j then U ! k ! j / S ! j else 0)) [0..<6]))
                     [0..<6]) [0..<6]"
    unfolding HA H2 by (rule pseudo_inverse_entries [OF assms(11,12,13) inv])
  have cols: "jac_columns Jt = ?N" "jac_columns Jr = ?N"
    using assms(16,17) jac_columns_is_mat [of 5 ?N] by (simp_all add: eval_nat_numeral)
  have A: "A_mat c' = mat_mul ?N (block_rows ?n 6 (H_mat c')) (mat_sub Jt Jr)"
    unfolding HA A2 H2 [symmetric] jl assms(14,15) [symmetric] cols
    by (rule mat_mul_sub [OF assms(16,17)])
  have lH: "length (H_mat c') = 6" and rH: "\<forall>r < 6. length (H_mat c' ! r) = 6"
    unfolding 1 by simp_all
  have "length (y_ref_root c') = length (y_ref_root c2)"
    by (simp add: c' zero_reference_def zero_vec_def)
  also have "\<dots> = length (y_ref_root ?c1)"
    using y6 by (simp add: y2 twist_to_root_def vec_of_twist_def)
  finally have "6 \<le> ?n" using ly y6 by simp
  moreover from Am have "length (A_mat c') = ?n" by (simp add: is_mat_def)
  then have "?n \<le> 6" using lH by (simp add: A mat_mul_def block_rows_def)
  ultimately have 2: "?n = 6" by simp
  with Am have 3: "length (A_mat c') = 6"
    and rows: "\<forall>r < 6. length (A_mat c' ! r) = ?N"
    by (simp_all add: is_mat_def list_all_length)
  have blk: "block_rows 6 6 (H_mat c') = H_mat c'"
    using lH rH by (intro nth_equalityI) (simp_all add: block_rows_def)
  have entry: "A_mat c' ! r ! m
      = sum_list (map (\<lambda>i. H_mat c' ! r ! i * (Jt ! i ! m - Jr ! i ! m)) [0..<6])"
    if "r < 6" and "m < ?N" for r m
  proof -
    from that lH rH have "r < length (H_mat c')" "length (H_mat c' ! r) = 6" by simp_all
    from mat_mul_entry [OF this(1) that(2) this(2) assms(16,17)] show ?thesis
      by (simp only: A 2 blk)
  qed
  from h have "map (take ?N) (segment (row_offset s prio k) ?n (eq_A (eqs' ! prio))) = A_mat c'"
    by (simp add: holds_constraint_def)
  with segment_rows [OF prepareEqSystem_rows [OF assms(1,3)]]
  have 5: "segment (row_offset s prio k) 6 (eq_A (eqs' ! prio)) = A_mat c'"
    by (simp add: 2)
  have 6: "invert_singular_values j0 S0 U0 \<noteq> Inl DivisionByZero"
    using invert_singular_values_Inr [of j0 S0 U0] by auto
  from 1 2 3 rows entry 5 6 show ?thesis by blast
qed

theorem cartesian_task_matrix_witness:
  "\<exists>s' eqs'.
     prepareEqSystem deficient_svd (\<lambda>prio i k. 0) moving_frames
       (write_reference 0 [1, 0, 0, 0, 0, 0] 1 0 arm_solver) [] = (None, s', eqs')
     \<and> jac_lookup (jac_map s') ''hand'' = [[4], [0], [0], [0], [0], [5]]
     \<and> jac_lookup (jac_map s') ''base'' = [[0], [1], [0], [0], [0], [3]]
     \<and> H_mat (heap s' ! 0)
         = [[0, 1 / 2, 0, 0, 0, 0], [1, 0, 0, 0, 0, 0], [0, 0, 1, 0, 0, 0],
            [0, 0, 0, 1, 0, 0], [0, 0, 0, 0, 1, 0], [0, 0, 0, 0, 0, 0]]
     \<and> A_mat (heap s' ! 0) = [[- 1 / 2], [4], [0], [0], [0], [0]]
     \<and> segment 0 6 (eq_A (eqs' ! 0)) = [[- 1 / 2], [4], [0], [0], [0], [0]]"
proof -
  let ?s = "write_reference 0 [1, 0, 0, 0, 0, 0] 1 0 arm_solver"
  let ?now = "\<lambda>prio i k :: nat. 0 :: int"
  let ?c = "(ExtendedConstraint_new (cart_config ''c'' 0 ''base'' ''hand'' ''tool'') [''j1''])
                  \<lparr> y_ref := [1, 0, 0, 0, 0, 0], activation := 1, last_ref_input := 0 \<rparr>"
  let ?base = "\<lparr> tf_joint_names = [''j1''], tf_jacobian = base_jacobian,
                   tf_pose = Frame rot_identity (Vector 0 0 0) \<rparr>"
  let ?hand = "\<lparr> tf_joint_names = [''j1''], tf_jacobian = hand_jacobian,
                   tf_pose = Frame rot_identity (Vector 0 0 0) \<rparr>"
  let ?U = "[[0, 1, 0, 0, 0, 0], [1, 0, 0, 0, 0, 0], [0, 0, 1, 0, 0, 0],
             [0, 0, 0, 1, 0, 0], [0, 0, 0, 0, 1, 0], [0, 0, 0, 0, 0, 1 :: real]]"
  let ?S = "[2, 1, 1, 1, 1, 0 :: real]"
  let ?H = "[[0, 1 / 2, 0, 0, 0, 0], [1, 0, 0, 0, 0, 0], [0, 0, 1, 0, 0, 0],
            [0, 0, 0, 1, 0, 0], [0, 0, 0, 0, 1, 0], [0, 0, 0, 0, 0, 0 :: real]]"
  from deficient_assemble [of ?now 1 0 0 0 0 0] obtain s' eqs' where
    p: "prepareEqSystem deficient_svd ?now moving_frames ?s [] = (None, s', eqs')"
    and jl: "jac_lookup (jac_map s')
           = jac_lookup [(''base'', base_jacobian), (''hand'', hand_jacobian), (''tool'', zero_mat 6 1)]"
    by blast
  have c: "heap ?s ! (constraint_vector ?s ! 0 ! 0) = ?c"
    by (simp add: arm_solver_eval write_reference_def)
  have d: "distinct (concat (constraint_vector ?s))" "0 < n_prios ?s"
    "0 < length (constraint_vector ?s ! 0)" "row_offset ?s 0 0 = 0"
    "constraint_vector ?s ! 0 ! 0 = 0" "no_robot_joints ?s = 1"
    by (simp_all add: arm_solver_eval write_reference_def row_offset_def)
  have cf: "ctype (config ?c) = cart" "root_frame (config ?c) = ''base''" "tip (config ?c) = ''hand''"
    by (simp_all add: ExtendedConstraint_new_def cart_config_def)
  have tf: "map_of moving_frames (root_frame (config ?c)) = Some ?base"
    "map_of moving_frames (tip (config ?c)) = Some ?hand"
    unfolding cf by (simp_all add: moving_frames_def)
  have svd: "deficient_svd (local_jacobian (tf_pose ?base)
                (frame_mul (frame_inverse (tf_pose ?base)) (tf_pose ?hand)))
             = (?U, ?S, identity_mat 6)"
    by (simp add: deficient_svd_def)
  have m: "is_mat 6 6 ?U" "length ?S = 6" "is_mat 6 6 (identity_mat 6)"
    by (simp_all add: is_mat_def identity_mat_def upt_6)
  have J: "jac_lookup (jac_map s') (tip (config ?c)) = hand_jacobian"
    "jac_lookup (jac_map s') (root_frame (config ?c)) = base_jacobian"
    unfolding jl cf by (simp_all add: jac_lookup_def map_index_def)
  have Jm: "is_mat 6 (no_robot_joints ?s) hand_jacobian" "is_mat 6 (no_robot_joints ?s) base_jacobian"
    unfolding d by (simp_all add: is_mat_def hand_jacobian_def base_jacobian_def)
  have H: "map (\<lambda>r. map (\<lambda>k. sum_list (map (\<lambda>j. identity_mat 6 ! r ! j
                 * (if 0 < ?S ! j then ?U ! k ! j / ?S ! j else 0))
                 [0..<6])) [0..<6]) [0..<6] = ?H"
    by (simp add: identity_mat_def upt_6)
  from cartesian_task_matrix [where svd = deficient_svd and tfs = moving_frames and s = ?s and c = ?c,
      OF p d(1,2,3) c [symmetric] refl cf(1) tf svd m J [symmetric] Jm]
  have Hc: "H_mat (heap s' ! (constraint_vector ?s ! 0 ! 0)) = ?H"
    and lA: "length (A_mat (heap s' ! (constraint_vector ?s ! 0 ! 0))) = 6"
    and eA: "\<forall>r < 6. length (A_mat (heap s' ! (constraint_vector ?s ! 0 ! 0)) ! r) = no_robot_joints ?s
             \<and> (\<forall>m < no_robot_joints ?s.
                   A_mat (heap s' ! (constraint_vector ?s ! 0 ! 0)) ! r ! m
                     = sum_list (map (\<lambda>i. H_mat (heap s' ! (constraint_vector ?s ! 0 ! 0)) ! r ! i
                          * (hand_jacobian ! i ! m - base_jacobian ! i ! m)) [0..<6]))"
    and sg: "segment (row_offset ?s 0 0) 6 (eq_A (eqs' ! 0))
              = A_mat (heap s' ! (constraint_vector ?s ! 0 ! 0))"
    unfolding H by blast+
  let ?A = "A_mat (heap s' ! 0)"
  from lA have l6: "length ?A = 6" by (simp only: d(5))
  from eA have rows: "\<forall>r < 6. length (?A ! r) = 1
      \<and> ?A ! r ! 0 = sum_list (map (\<lambda>i. ?H ! r ! i * (hand_jacobian ! i ! 0 - base_jacobian ! i ! 0)) [0..<6])"
    unfolding d(5,6) Hc [unfolded d(5)] by simp
  have r0: "?A ! 0 = [- 1 / 2]" "?A ! 1 = [4]" "?A ! 2 = [0]" "?A ! 3 = [0]" "?A ! 4 = [0]" "?A ! 5 = [0]"
    using rows
    by (subst list_1 [of "?A ! _"], simp, simp add: upt_6 hand_jacobian_def base_jacobian_def)+
  have A: "?A = [[- 1 / 2], [4], [0], [0], [0], [0]]"
    by (subst list_6 [OF l6]) (simp only: r0)
  from Hc have Hc': "H_mat (heap s' ! 0) = ?H" by (simp only: d(5))
  from sg have sg': "segment 0 6 (eq_A (eqs' ! 0)) = ?A" by (simp only: d(4,5))
  have J': "jac_lookup (jac_map s') ''hand'' = [[4], [0], [0], [0], [0], [5]]"
    "jac_lookup (jac_map s') ''base'' = [[0], [1], [0], [0], [0], [3]]"
    using J unfolding cf by (simp_all add: hand_jacobian_def base_jacobian_def)
  from p J' Hc' A sg' show ?thesis by (intro exI conjI) (simp_all only:)
qed

end
